theory Spec2Isabelle
  imports Main
begin

section \<open>Strings and whitespace\<close>

text \<open>
  JavaScript strings are modelled as \<^typ>\<open>string\<close>: a list of code units, here the code
  units below 256. \<open>is_space\<close> is the white space of both \<open>String.prototype.trim\<close> and the
  regular expression class \<open>\s\<close> (they are the same set) in that range: TAB, LF, VT, FF,
  CR, SPACE and NBSP.
\<close>

definition is_space :: "char \<Rightarrow> bool" where
  "is_space c = (c = CHR 0x09 \<or> c = CHR 0x0A \<or> c = CHR 0x0B \<or> c = CHR 0x0C \<or> c = CHR 0x0D
      \<or> c = CHR 0x20 \<or> c = CHR 0xA0)"

definition is_brace :: "char \<Rightarrow> bool" where
  "is_brace c = (c = CHR ''{'' \<or> c = CHR ''}'')"

text \<open>\<open>String.prototype.trim\<close>: white space removed at both ends.\<close>

definition trim :: "string \<Rightarrow> string" where
  "trim s = rev (dropWhile is_space (rev (dropWhile is_space s)))"

text \<open>\<open>function normaliseKey(rawKey) { return rawKey.trim(); }\<close>\<close>

definition normaliseKey :: "string \<Rightarrow> string" where
  "normaliseKey rawKey = trim rawKey"

section \<open>The regular expression \<open>PLACEHOLDER_REGEX\<close>\<close>

text \<open>
  \<open>const PLACEHOLDER_REGEX = /{{\s*([^{}]+?)\s*}}/g;\<close>

  The matcher below is the backtracking matcher of that expression, one function per
  piece, each with the priority the piece has in JavaScript: a greedy \<open>\s*\<close> first tries
  to take one more white space character and gives it back when the rest fails; the
  lazy \<open>[^{}]+?\<close> first tries the rest of the expression and takes one more character
  only when the rest fails. Every function takes the text at the current position and
  returns what is left after the whole match (and the text of group 1).
\<close>

text \<open>The literal \<open>}}\<close> at the end of the expression.\<close>

fun close_braces :: "string \<Rightarrow> string option" where
  "close_braces (c1 # c2 # r) = (if c1 = CHR ''}'' \<and> c2 = CHR ''}'' then Some r else None)"
| "close_braces _ = None"

text \<open>\<open>\s*}}\<close>: the greedy white space after the group, then the literal.\<close>

fun trail_ws :: "string \<Rightarrow> string option" where
  "trail_ws [] = close_braces []"
| "trail_ws (c # cs) =
     (if is_space c
      then (case trail_ws cs of Some r \<Rightarrow> Some r | None \<Rightarrow> close_braces (c # cs))
      else close_braces (c # cs))"

text \<open>
  \<open>([^{}]+?)\s*}}\<close> once the group holds \<open>acc\<close> (at least one character): lazy, so the
  rest of the expression is tried before the group grows.
\<close>

fun lazy_group :: "string \<Rightarrow> string \<Rightarrow> (string \<times> string) option" where
  "lazy_group acc s =
     (case trail_ws s of
        Some r \<Rightarrow> Some (acc, r)
      | None \<Rightarrow>
          (case s of
             [] \<Rightarrow> None
           | c # cs \<Rightarrow> if is_brace c then None else lazy_group (acc @ [c]) cs))"

declare lazy_group.simps [simp del]

text \<open>The group from its start: \<open>+\<close> asks for one character before anything else.\<close>

definition group1 :: "string \<Rightarrow> (string \<times> string) option" where
  "group1 s =
     (case s of [] \<Rightarrow> None | c # cs \<Rightarrow> if is_brace c then None else lazy_group [c] cs)"

text \<open>\<open>\s*([^{}]+?)\s*}}\<close>: the greedy white space before the group, then the group.\<close>

fun lead_ws :: "string \<Rightarrow> (string \<times> string) option" where
  "lead_ws [] = group1 []"
| "lead_ws (c # cs) =
     (if is_space c
      then (case lead_ws cs of Some m \<Rightarrow> Some m | None \<Rightarrow> group1 (c # cs))
      else group1 (c # cs))"

text \<open>The whole expression at one position: group 1 and the text after the match.\<close>

definition match_here :: "string \<Rightarrow> (string \<times> string) option" where
  "match_here s =
     (case s of
        c1 # c2 # r \<Rightarrow> if c1 = CHR ''{'' \<and> c2 = CHR ''{'' then lead_ws r else None
      | _ \<Rightarrow> None)"

text \<open>
  One search from the current position (\<open>RegExp.prototype.exec\<close> from \<open>lastIndex\<close>, and
  one round of \<open>String.prototype.replace\<close>): the first position where the expression
  matches wins. The result is the text skipped before the match, group 1, and the text
  after the match, where the next search starts; \<open>None\<close> is JavaScript's \<open>null\<close>.
  Every loop of the program runs until the search fails, which resets \<open>lastIndex\<close> to 0,
  so every loop starts at the beginning of its text.
\<close>

fun regex_exec :: "string \<Rightarrow> (string \<times> string \<times> string) option" where
  "regex_exec [] = None"
| "regex_exec (c # cs) =
     (case match_here (c # cs) of
        Some (g, r) \<Rightarrow> Some ([], g, r)
      | None \<Rightarrow>
          (case regex_exec cs of
             Some (pre, g, r) \<Rightarrow> Some (c # pre, g, r)
           | None \<Rightarrow> None))"

subsection \<open>A match consumes text\<close>

lemma close_braces_length: "close_braces s = Some r \<Longrightarrow> length s = length r + 2"
  by (induction s rule: close_braces.induct) (auto split: if_splits)

lemma trail_ws_length: "trail_ws s = Some r \<Longrightarrow> length r < length s"
proof (induction s)
  case Nil
  then show ?case by simp
next
  case (Cons c cs)
  then show ?case
    by (fastforce split: if_splits option.splits dest: close_braces_length)
qed

lemma lazy_group_length: "lazy_group acc s = Some (g, r) \<Longrightarrow> length r < length s"
proof (induction s arbitrary: acc)
  case Nil
  then show ?case by (simp add: lazy_group.simps [of _ "[]"])
next
  case (Cons c cs)
  show ?case
  proof (cases "trail_ws (c # cs)")
    case (Some r')
    with Cons.prems have "r' = r" by (simp add: lazy_group.simps [of _ "c # cs"])
    moreover from Some have "length r' < length (c # cs)" by (rule trail_ws_length)
    ultimately show ?thesis by simp
  next
    case None
    with Cons.prems have "lazy_group (acc @ [c]) cs = Some (g, r)"
      by (simp add: lazy_group.simps [of _ "c # cs"] split: if_splits)
    from Cons.IH [OF this] show ?thesis by simp
  qed
qed

lemma group1_length: "group1 s = Some (g, r) \<Longrightarrow> length r < length s"
  by (cases s) (auto simp: group1_def split: if_splits dest: lazy_group_length)

lemma lead_ws_length: "lead_ws s = Some (g, r) \<Longrightarrow> length r < length s"
proof (induction s)
  case Nil
  then show ?case by (simp add: group1_def)
next
  case (Cons c cs)
  then show ?case
    by (fastforce split: if_splits option.splits dest: group1_length)
qed

lemma match_here_length: "match_here s = Some (g, r) \<Longrightarrow> length r < length s"
  by (auto simp: match_here_def split: list.splits if_splits dest: lead_ws_length)

lemma regex_exec_length: "regex_exec s = Some (pre, g, r) \<Longrightarrow> length r < length s"
proof (induction s arbitrary: pre)
  case Nil
  then show ?case by simp
next
  case (Cons c cs)
  then show ?case
    by (fastforce split: option.splits dest: match_here_length)
qed

section \<open>The placeholder scanner\<close>

text \<open>
  \<open>keys.add(key)\<close> on a JavaScript \<open>Set\<close>: the set keeps its elements in insertion
  order, and adding an element it already holds changes nothing.
\<close>

definition Set_add :: "string list \<Rightarrow> string \<Rightarrow> string list" where
  "Set_add keys k = (if k \<in> set keys then keys else keys @ [k])"

text \<open>
  The loop of \<open>detectPlaceholders\<close>:
  \<^verbatim>\<open>while ((match = PLACEHOLDER_REGEX.exec(prompt)) !== null) {
    const key = normaliseKey(match[1]);
    if (key.length > 0) { keys.add(key); }
  }\<close>
  with the set built so far and the text from \<open>lastIndex\<close> on.
\<close>

function detect_loop :: "string list \<Rightarrow> string \<Rightarrow> string list" where
  "detect_loop keys s =
     (case regex_exec s of
        None \<Rightarrow> keys
      | Some (pre, g, rest) \<Rightarrow>
          (let key = normaliseKey g
           in detect_loop (if length key > 0 then Set_add keys key else keys) rest))"
  by pat_completeness auto
termination
  by (relation "measure (\<lambda>(keys, s). length s)") (auto dest: regex_exec_length)

declare detect_loop.simps [simp del]

text \<open>\<open>return Array.from(keys);\<close> of a set that starts empty.\<close>

definition detectPlaceholders :: "string \<Rightarrow> string list" where
  "detectPlaceholders prompt = detect_loop [] prompt"

section \<open>The variable store\<close>

text \<open>
  \<open>type VariableMap = Record<string, string>\<close>: a plain JavaScript object. Its own
  properties are kept as a list in the order in which JavaScript enumerates them: the
  keys that are array indices first, in ascending numeric order, then the other keys in
  the order in which they were created.
\<close>

type_synonym VariableMap = "(string \<times> string) list"

definition is_digit :: "char \<Rightarrow> bool" where
  "is_digit c = (48 \<le> (of_char c :: nat) \<and> (of_char c :: nat) \<le> 57)"

definition digits_value :: "string \<Rightarrow> nat" where
  "digits_value k = foldl (\<lambda>a c. 10 * a + ((of_char c :: nat) - 48)) 0 k"

text \<open>
  A key is an array index when it is the canonical decimal text of an integer from 0 to
  \<open>2^32 - 2\<close>.
\<close>

definition array_index :: "string \<Rightarrow> nat option" where
  "array_index k =
     (if k \<noteq> [] \<and> list_all is_digit k \<and> (k = ''0'' \<or> hd k \<noteq> CHR ''0'')
         \<and> digits_value k < 2 ^ 32 - 1
      then Some (digits_value k) else None)"

fun insert_index :: "nat \<Rightarrow> string \<Rightarrow> string \<Rightarrow> VariableMap \<Rightarrow> VariableMap" where
  "insert_index n k v [] = [(k, v)]"
| "insert_index n k v ((k', v') # ps) =
     (case array_index k' of
        Some m \<Rightarrow> if m < n then (k', v') # insert_index n k v ps else (k, v) # (k', v') # ps
      | None \<Rightarrow> (k, v) # (k', v') # ps)"

text \<open>
  \<open>{ ...prev, [key]: value }\<close>: a copy of the object with the property \<open>key\<close> set. A key
  the object has keeps its place; a new key goes where the enumeration order puts it.
\<close>

definition set_prop :: "VariableMap \<Rightarrow> string \<Rightarrow> string \<Rightarrow> VariableMap" where
  "set_prop prev key v =
     (if key \<in> fst ` set prev
      then map (\<lambda>(k', v'). if k' = key then (k', v) else (k', v')) prev
      else (case array_index key of
              Some n \<Rightarrow> insert_index n key v prev
            | None \<Rightarrow> prev @ [(key, v)]))"

text \<open>
  What \<open>values[key]\<close> evaluates to. An object literal inherits from \<open>Object.prototype\<close>,
  so a key that is not an own property is looked up there before the result is
  \<open>undefined\<close>. The inherited values are functions (for \<open>__proto__\<close>, the prototype
  object itself), never strings; \<open>Inherited\<close> carries the text that \<open>ToString\<close> gives for
  the value, which is what \<open>String.prototype.replace\<close> inserts when its callback returns
  it.
\<close>

datatype js_value = Undefined | Str string | Inherited string

text \<open>
  The properties of \<open>Object.prototype\<close> with the text of their values. The text of a
  built-in function is the one V8 and JavaScriptCore print.
\<close>

definition native_function :: "string \<Rightarrow> string" where
  "native_function f = ''function '' @ f @ ''() { [native code] }''"

definition object_prototype :: "(string \<times> string) list" where
  "object_prototype =
     [(''constructor'', native_function ''Object''),
      (''__defineGetter__'', native_function ''__defineGetter__''),
      (''__defineSetter__'', native_function ''__defineSetter__''),
      (''hasOwnProperty'', native_function ''hasOwnProperty''),
      (''__lookupGetter__'', native_function ''__lookupGetter__''),
      (''__lookupSetter__'', native_function ''__lookupSetter__''),
      (''isPrototypeOf'', native_function ''isPrototypeOf''),
      (''propertyIsEnumerable'', native_function ''propertyIsEnumerable''),
      (''toString'', native_function ''toString''),
      (''valueOf'', native_function ''valueOf''),
      (''__proto__'', ''[object Object]''),
      (''toLocaleString'', native_function ''toLocaleString'')]"

definition get_prop :: "VariableMap \<Rightarrow> string \<Rightarrow> js_value" where
  "get_prop values key =
     (case map_of values key of
        Some v \<Rightarrow> Str v
      | None \<Rightarrow>
          (case map_of object_prototype key of
             Some t \<Rightarrow> Inherited t
           | None \<Rightarrow> Undefined))"

text \<open>
  \<open>const DEFAULT_VARIABLES: VariableMap = { count: "24", pack_name: "TR_INVOICE", ... }\<close>
\<close>

definition DEFAULT_VARIABLES :: VariableMap where
  "DEFAULT_VARIABLES =
     [(''count'', ''24''),
      (''pack_name'', ''TR_INVOICE''),
      (''output_path'', ''/tmp/synthetic_factory/output''),
      (''user_id'', ''142857''),
      (''timeout'', ''45'')]"

section \<open>The substitution engine\<close>

text \<open>
  \<open>template.replace(PLACEHOLDER_REGEX, callback)\<close> with a global expression: every
  match, found from left to right and each search starting where the last match ended,
  is replaced by what the callback returns for group 1; the text between the matches is
  kept. The text the callback returns is not searched again.
\<close>

function replace_all :: "(string \<Rightarrow> string) \<Rightarrow> string \<Rightarrow> string" where
  "replace_all f s =
     (case regex_exec s of
        None \<Rightarrow> s
      | Some (pre, g, rest) \<Rightarrow> pre @ f g @ replace_all f rest)"
  by pat_completeness auto
termination
  by (relation "measure (\<lambda>(f, s). length s)") (auto dest: regex_exec_length)

declare replace_all.simps [simp del]

text \<open>
  The callback of \<open>injectVariables\<close>:
  \<^verbatim>\<open>(_, rawKey) => {
    const key = normaliseKey(rawKey);
    const value = values[key];
    return value !== undefined && value !== "" ? value : `{{${key}}}`;
  }\<close>
\<close>

definition marker :: "string \<Rightarrow> string" where
  "marker key = ''{{'' @ key @ ''}}''"

definition substitute :: "VariableMap \<Rightarrow> string \<Rightarrow> string" where
  "substitute values rawKey =
     (let key = normaliseKey rawKey
      in case get_prop values key of
           Undefined \<Rightarrow> marker key
         | Str v \<Rightarrow> if v \<noteq> [] then v else marker key
         | Inherited t \<Rightarrow> t)"

definition injectVariables :: "string \<Rightarrow> VariableMap \<Rightarrow> string" where
  "injectVariables template values = replace_all (substitute values) template"

section \<open>Pack records\<close>

text \<open>
  \<open>type PackPrompt = { id; name; packName; goal; perImage; systemNotes }\<close>, all strings.
  The field \<open>id\<close> is \<open>id_str\<close> here, since \<open>id\<close> is the identity function of HOL.
\<close>

record PackPrompt =
  id_str :: string
  name :: string
  packName :: string
  goal :: string
  perImage :: string
  systemNotes :: string

text \<open>\<open>s.split(sep)\<close> for a separator of one character, as a loop over the text.\<close>

fun split_from :: "char \<Rightarrow> string \<Rightarrow> string \<Rightarrow> string list" where
  "split_from sep cur [] = [cur]"
| "split_from sep cur (c # cs) =
     (if c = sep then cur # split_from sep [] cs else split_from sep (cur @ [c]) cs)"

definition split :: "string \<Rightarrow> char \<Rightarrow> string list" where
  "split s sep = split_from sep [] s"

text \<open>\<open>xs.join(sep)\<close>\<close>

fun join :: "string list \<Rightarrow> string \<Rightarrow> string" where
  "join [] sep = []"
| "join [x] sep = x"
| "join (x # y # ys) sep = x @ sep @ join (y # ys) sep"

definition newline :: char where
  "newline = CHR 0x0A"

text \<open>
  \<^verbatim>\<open>function packToMarkdown(pack) {
    return [
      `Pack Name: ${pack.packName}`,
      `Objective: ${pack.goal}`,
      "",
      "Per Image Directives:",
      pack.perImage.split("\n").map((line) => `- ${line}`).join("\n"),
      "",
      `System Notes: ${pack.systemNotes}`,
    ].join("\n");
  }\<close>
\<close>

definition packToMarkdown :: "PackPrompt \<Rightarrow> string" where
  "packToMarkdown pack =
     join
       [''Pack Name: '' @ packName pack,
        ''Objective: '' @ goal pack,
        [],
        ''Per Image Directives:'',
        join (map (\<lambda>line. ''- '' @ line) (split (perImage pack) newline)) [newline],
        [],
        ''System Notes: '' @ systemNotes pack]
       [newline]"

section \<open>The state of the page and its operations\<close>

text \<open>
  The state hooks of \<open>Home\<close>: \<open>metaPrompt\<close>, \<open>variables\<close>, \<open>packs\<close> and \<open>selectedPackId\<close>.
  Every handler is a function from the state it is called in to the state after it.
\<close>

record home_state =
  metaPrompt :: string
  variables :: VariableMap
  packs :: "PackPrompt list"
  selectedPackId :: string

text \<open>\<open>const detectedVariables = detectPlaceholders(metaPrompt)\<close>\<close>

definition detectedVariables :: "home_state \<Rightarrow> string list" where
  "detectedVariables st = detectPlaceholders (metaPrompt st)"

text \<open>
  \<open>const selectedPack = packs.find((pack) => pack.id === selectedPackId) ?? packs[0];\<close>
  \<open>None\<close> is \<open>undefined\<close>: what \<open>find\<close> returns when no record matches, and what
  \<open>packs[0]\<close> is for an empty array.
\<close>

definition selectedPack :: "home_state \<Rightarrow> PackPrompt option" where
  "selectedPack st =
     (case find (\<lambda>pack. id_str pack = selectedPackId st) (packs st) of
        Some pack \<Rightarrow> Some pack
      | None \<Rightarrow> (case packs st of [] \<Rightarrow> None | pack # _ \<Rightarrow> Some pack))"

text \<open>\<open>const finalPrompt = injectVariables(metaPrompt, variables)\<close>\<close>

definition finalPrompt :: "home_state \<Rightarrow> string" where
  "finalPrompt st = injectVariables (metaPrompt st) (variables st)"

text \<open>
  \<^verbatim>\<open>const combinedPrompt = useMemo(() => {
    if (!selectedPack) { return finalPrompt; }
    const divider = "\n\n---\n\n";
    return `${finalPrompt}${divider}${packToMarkdown(selectedPack)}`;
  }, [finalPrompt, selectedPack]);\<close>
  first as a function of the two values it is computed from, then of the state.
\<close>

definition divider :: string where
  "divider = [newline, newline] @ ''---'' @ [newline, newline]"

definition compose :: "string \<Rightarrow> PackPrompt option \<Rightarrow> string" where
  "compose final sel =
     (case sel of
        None \<Rightarrow> final
      | Some pack \<Rightarrow> final @ divider @ packToMarkdown pack)"

definition combinedPrompt :: "home_state \<Rightarrow> string" where
  "combinedPrompt st = compose (finalPrompt st) (selectedPack st)"

text \<open>
  \<open>handleVariableChange(key, value)\<close>:
  \<open>setVariables((prev) => ({ ...prev, [key]: value }))\<close>
\<close>

definition handleVariableChange :: "string \<Rightarrow> string \<Rightarrow> home_state \<Rightarrow> home_state" where
  "handleVariableChange key v st = st\<lparr>variables := set_prop (variables st) key v\<rparr>"

text \<open>
  The keys of \<open>PackPrompt\<close>, and \<open>{ ...pack, [field]: value }\<close>. The page calls
  \<open>handlePackFieldChange\<close> with the five fields it shows (every one but \<open>id\<close>).
\<close>

datatype pack_field = F_id | F_name | F_packName | F_goal | F_perImage | F_systemNotes

fun set_field :: "PackPrompt \<Rightarrow> pack_field \<Rightarrow> string \<Rightarrow> PackPrompt" where
  "set_field pack F_id v = pack\<lparr>id_str := v\<rparr>"
| "set_field pack F_name v = pack\<lparr>name := v\<rparr>"
| "set_field pack F_packName v = pack\<lparr>packName := v\<rparr>"
| "set_field pack F_goal v = pack\<lparr>goal := v\<rparr>"
| "set_field pack F_perImage v = pack\<lparr>perImage := v\<rparr>"
| "set_field pack F_systemNotes v = pack\<lparr>systemNotes := v\<rparr>"

fun get_field :: "PackPrompt \<Rightarrow> pack_field \<Rightarrow> string" where
  "get_field pack F_id = id_str pack"
| "get_field pack F_name = name pack"
| "get_field pack F_packName = packName pack"
| "get_field pack F_goal = goal pack"
| "get_field pack F_perImage = perImage pack"
| "get_field pack F_systemNotes = systemNotes pack"

text \<open>
  \<^verbatim>\<open>const handlePackFieldChange = (field, value) => {
    setPacks((prev) =>
      prev.map((pack) => {
        if (pack.id === selectedPackId) { return { ...pack, [field]: value }; }
        return pack;
      }));
    if (field === "packName") { handleVariableChange("pack_name", String(value)); }
  };\<close>
  The record to change is the one whose id is the stored selection.
\<close>

definition handlePackFieldChange :: "pack_field \<Rightarrow> string \<Rightarrow> home_state \<Rightarrow> home_state" where
  "handlePackFieldChange field v st =
     (let st1 = st\<lparr>packs :=
                  map (\<lambda>pack. if id_str pack = selectedPackId st then set_field pack field v
                              else pack)
                    (packs st)\<rparr>
      in if field = F_packName then handleVariableChange ''pack_name'' v st1 else st1)"

text \<open>
  \<^verbatim>\<open>const handleSelectPack = (packId) => {
    setSelectedPackId(packId);
    const pack = packs.find((item) => item.id === packId);
    if (pack) { handleVariableChange("pack_name", pack.packName); }
  };\<close>
  The handler returns nothing in either case.
\<close>

definition handleSelectPack :: "string \<Rightarrow> home_state \<Rightarrow> home_state" where
  "handleSelectPack packId st =
     (let st1 = st\<lparr>selectedPackId := packId\<rparr>
      in case find (\<lambda>item. id_str item = packId) (packs st) of
           Some pack \<Rightarrow> handleVariableChange ''pack_name'' (packName pack) st1
         | None \<Rightarrow> st1)"

text \<open>
  The decimal text of a number, as a template literal writes \<open>${nextIndex}\<close> (for the
  integers an array length can be).
\<close>

definition digit_char :: "nat \<Rightarrow> char" where
  "digit_char d = char_of (48 + d)"

function number_to_string :: "nat \<Rightarrow> string" where
  "number_to_string n =
     (if n < 10 then [digit_char n] else number_to_string (n div 10) @ [digit_char (n mod 10)])"
  by pat_completeness auto
termination
  by (relation "measure (\<lambda>n. n)") auto

declare number_to_string.simps [simp del]

text \<open>
  \<^verbatim>\<open>const addNewPack = () => {
    const nextIndex = packs.length + 1;
    const newPack = {
      id: `pack_${nextIndex}`,
      name: `New Pack ${nextIndex}`,
      packName: `PACK_${nextIndex}`,
      goal: "Describe the objective for this synthetic data pack.",
      perImage: "List per-image directives, each on its own line.",
      systemNotes: "Add advanced notes such as balancing rules or post-processing.",
    };
    setPacks((prev) => [...prev, newPack]);
    setSelectedPackId(newPack.id);
    handleVariableChange("pack_name", newPack.packName);
  };\<close>
\<close>

definition newPack :: "nat \<Rightarrow> PackPrompt" where
  "newPack nextIndex =
     \<lparr>id_str = ''pack_'' @ number_to_string nextIndex,
      name = ''New Pack '' @ number_to_string nextIndex,
      packName = ''PACK_'' @ number_to_string nextIndex,
      goal = ''Describe the objective for this synthetic data pack.'',
      perImage = ''List per-image directives, each on its own line.'',
      systemNotes = ''Add advanced notes such as balancing rules or post-processing.''\<rparr>"

definition addNewPack :: "home_state \<Rightarrow> home_state" where
  "addNewPack st =
     (let nextIndex = length (packs st) + 1;
          pack = newPack nextIndex
      in handleVariableChange ''pack_name'' (packName pack)
           (st\<lparr>packs := packs st @ [pack], selectedPackId := id_str pack\<rparr>))"

section \<open>The JSON snapshot\<close>

text \<open>The values \<open>JSON.stringify\<close> meets here: \<open>null\<close>, strings, arrays and objects.\<close>

datatype json = JNull | JString string | JArray "json list" | JObject "(string \<times> json) list"

text \<open>
  \<open>QuoteJSONString\<close>: the text between double quotes, with the double quote, the
  backslash and the control characters below U+0020 escaped.
\<close>

definition hex_digit :: "nat \<Rightarrow> char" where
  "hex_digit d = (if d < 10 then char_of (48 + d) else char_of (87 + d))"

definition quote_char :: "char \<Rightarrow> string" where
  "quote_char c =
     (if c = CHR 0x08 then [CHR 0x5C, CHR ''b'']
      else if c = CHR 0x09 then [CHR 0x5C, CHR ''t'']
      else if c = CHR 0x0A then [CHR 0x5C, CHR ''n'']
      else if c = CHR 0x0C then [CHR 0x5C, CHR ''f'']
      else if c = CHR 0x0D then [CHR 0x5C, CHR ''r'']
      else if c = CHR 0x22 then [CHR 0x5C, CHR 0x22]
      else if c = CHR 0x5C then [CHR 0x5C, CHR 0x5C]
      else if (of_char c :: nat) < 32
        then [CHR 0x5C, CHR ''u'', CHR ''0'', CHR ''0'',
              hex_digit ((of_char c :: nat) div 16), hex_digit ((of_char c :: nat) mod 16)]
      else [c])"

definition quote :: "string \<Rightarrow> string" where
  "quote s = [CHR 0x22] @ concat (map quote_char s) @ [CHR 0x22]"

text \<open>
  \<open>SerializeJSONProperty\<close> with its \<open>gap\<close> and the current indentation: an empty array
  or object is \<open>[]\<close> or \<open>{}\<close>; with a gap, every element or member stands on a line of
  its own, indented by one more gap, and the closing bracket on a line at the
  indentation of the value; a member is the quoted key, a colon, a space when there is
  a gap, and the value.
\<close>

fun serialize :: "string \<Rightarrow> string \<Rightarrow> json \<Rightarrow> string" where
  "serialize gap indent JNull = ''null''"
| "serialize gap indent (JString s) = quote s"
| "serialize gap indent (JArray xs) =
     (let partial = map (serialize gap (indent @ gap)) xs
      in if partial = [] then ''[]''
         else if gap = [] then ''['' @ join partial '','' @ '']''
         else ''['' @ [newline] @ (indent @ gap)
                @ join partial ('','' @ [newline] @ (indent @ gap))
                @ [newline] @ indent @ '']'')"
| "serialize gap indent (JObject ms) =
     (let partial =
            map (\<lambda>m. quote (fst m) @ '':'' @ (if gap = [] then [] else '' '')
                        @ serialize gap (indent @ gap) (snd m)) ms
      in if partial = [] then ''{}''
         else if gap = [] then ''{'' @ join partial '','' @ ''}''
         else ''{'' @ [newline] @ (indent @ gap)
                @ join partial ('','' @ [newline] @ (indent @ gap))
                @ [newline] @ indent @ ''}'')"

text \<open>
  \<open>JSON.stringify(value, null, space)\<close> for a number \<open>space\<close>: the gap is that many
  spaces, ten at most.
\<close>

definition JSON_stringify :: "json \<Rightarrow> nat \<Rightarrow> string" where
  "JSON_stringify v space = serialize (replicate (min 10 space) CHR '' '') [] v"

text \<open>
  The object of the "Copy JSON Snapshot" button:
  \<^verbatim>\<open>{
    metaPrompt: finalPrompt,
    selectedPack: selectedPack
      ? {
          packName: selectedPack.packName,
          goal: selectedPack.goal,
          perImage: selectedPack.perImage.split("\n").map((line) => line.trim()),
          systemNotes: selectedPack.systemNotes,
        }
      : null,
    variables,
  }\<close>
\<close>

definition pack_json :: "PackPrompt option \<Rightarrow> json" where
  "pack_json sel =
     (case sel of
        Some pack \<Rightarrow>
          JObject
            [(''packName'', JString (packName pack)),
             (''goal'', JString (goal pack)),
             (''perImage'', JArray (map (\<lambda>line. JString (trim line)) (split (perImage pack) newline))),
             (''systemNotes'', JString (systemNotes pack))]
      | None \<Rightarrow> JNull)"

definition variables_json :: "VariableMap \<Rightarrow> json" where
  "variables_json vs = JObject (map (\<lambda>(k, v). (k, JString v)) vs)"

definition snapshot :: "home_state \<Rightarrow> json" where
  "snapshot st =
     JObject
       [(''metaPrompt'', JString (finalPrompt st)),
        (''selectedPack'', pack_json (selectedPack st)),
        (''variables'', variables_json (variables st))]"

text \<open>\<open>JSON.stringify(..., null, 2)\<close> of that object: the text the button copies.\<close>

definition json_snapshot :: "home_state \<Rightarrow> string" where
  "json_snapshot st = JSON_stringify (snapshot st) 2"

section \<open>The states of a session\<close>

text \<open>
  \<open>DEFAULT_PACKS\<close> holds three records, with the ids below. Their prose (goal, directive
  lines, notes) has characters beyond the code units modelled here and no property
  depends on it, so a session may start from any three records with these ids, with
  any template and any variables (both are free text the operator edits). A session
  then goes on by the handlers the page wires to its widgets: selecting a pack of the
  list, editing one of the five fields shown, editing a variable or the template, and
  adding a pack.
\<close>

definition DEFAULT_PACK_IDS :: "string list" where
  "DEFAULT_PACK_IDS = [''tr_invoice'', ''us_id'', ''parking_tickets'']"

inductive reachable :: "home_state \<Rightarrow> bool" where
  start: "map id_str (packs st) = DEFAULT_PACK_IDS \<Longrightarrow> reachable st"
| add: "reachable st \<Longrightarrow> reachable (addNewPack st)"
| select: "reachable st \<Longrightarrow> reachable (handleSelectPack packId st)"
| edit: "reachable st \<Longrightarrow> field \<noteq> F_id \<Longrightarrow> reachable (handlePackFieldChange field v st)"
| variable: "reachable st \<Longrightarrow> reachable (handleVariableChange key v st)"
| template: "reachable st \<Longrightarrow> reachable (st\<lparr>metaPrompt := t\<rparr>)"

section \<open>Notions the properties are stated with\<close>

text \<open>
  A well-formed placeholder marker at the start of a text: \<open>{{\<close>, then at least one
  character and only characters that are not braces, then \<open>}}\<close>. \<open>has_marker\<close> says
  that a text has one somewhere.
\<close>

definition marker_at :: "string \<Rightarrow> bool" where
  "marker_at s =
     (case s of
        c1 # c2 # r \<Rightarrow>
          c1 = CHR ''{'' \<and> c2 = CHR ''{''
          \<and> takeWhile (\<lambda>c. \<not> is_brace c) r \<noteq> []
          \<and> take 2 (dropWhile (\<lambda>c. \<not> is_brace c) r) = ''}}''
      | _ \<Rightarrow> False)"

fun has_marker :: "string \<Rightarrow> bool" where
  "has_marker [] = False"
| "has_marker (c # cs) = (marker_at (c # cs) \<or> has_marker cs)"

text \<open>What is left of a text after a marker body and the closing braces, if it starts so.\<close>

definition body_rest :: "string \<Rightarrow> string option" where
  "body_rest s =
     (if takeWhile (\<lambda>c. \<not> is_brace c) s = [] then None
      else close_braces (dropWhile (\<lambda>c. \<not> is_brace c) s))"

text \<open>
  The texts of group 1 of the successive matches of a text, in the order in which a
  loop over \<open>exec\<close> (or \<open>replace\<close>) meets them, and the names they give: each one
  trimmed, the empty ones left out.
\<close>

function exec_groups :: "string \<Rightarrow> string list" where
  "exec_groups s =
     (case regex_exec s of
        None \<Rightarrow> []
      | Some (pre, g, rest) \<Rightarrow> g # exec_groups rest)"
  by pat_completeness auto
termination
  by (relation "measure length") (auto dest: regex_exec_length)

declare exec_groups.simps [simp del]

definition placeholder_names :: "string \<Rightarrow> string list" where
  "placeholder_names s = filter (\<lambda>key. key \<noteq> []) (map normaliseKey (exec_groups s))"


text \<open>
  Reading a JSON string literal (RFC 8259) at the start of a text: the opening quote,
  then characters that are neither a quote nor a backslash nor a control character, or
  escapes (a backslash and one of \<open>" \ / b f n r t\<close>, or \<open>u\<close> and four hexadecimal
  digits), then the closing quote. The result is the string the literal denotes and the
  text after it; an escape \<open>\uXXXX\<close> beyond the code units modelled here is not read.
\<close>

definition hex_value :: "char \<Rightarrow> nat option" where
  "hex_value c =
     (let n = (of_char c :: nat)
      in if 48 \<le> n \<and> n \<le> 57 then Some (n - 48)
         else if 97 \<le> n \<and> n \<le> 102 then Some (n - 87)
         else if 65 \<le> n \<and> n \<le> 70 then Some (n - 55)
         else None)"

definition unescape :: "char \<Rightarrow> char option" where
  "unescape e =
     (if e = CHR 0x22 then Some (CHR 0x22)
      else if e = CHR 0x5C then Some (CHR 0x5C)
      else if e = CHR ''/'' then Some (CHR ''/'')
      else if e = CHR ''b'' then Some (CHR 0x08)
      else if e = CHR ''f'' then Some (CHR 0x0C)
      else if e = CHR ''n'' then Some (CHR 0x0A)
      else if e = CHR ''r'' then Some (CHR 0x0D)
      else if e = CHR ''t'' then Some (CHR 0x09)
      else None)"

fun read_chars :: "string \<Rightarrow> (string \<times> string) option" where
  "read_chars [] = None"
| "read_chars (c # cs) =
     (if c = CHR 0x22 then Some ([], cs)
      else if c = CHR 0x5C then
        (case cs of
           [] \<Rightarrow> None
         | e # es \<Rightarrow>
             if e = CHR ''u'' then
               (case es of
                  h1 # h2 # h3 # h4 # r \<Rightarrow>
                    (case (hex_value h1, hex_value h2, hex_value h3, hex_value h4) of
                       (Some a, Some b, Some x, Some y) \<Rightarrow>
                         if a = 0 \<and> b = 0
                         then (case read_chars r of
                                 Some (t, r') \<Rightarrow> Some (char_of (16 * x + y) # t, r')
                               | None \<Rightarrow> None)
                         else None
                     | _ \<Rightarrow> None)
                | _ \<Rightarrow> None)
             else (case unescape e of
                     Some x \<Rightarrow>
                       (case read_chars es of
                          Some (t, r') \<Rightarrow> Some (x # t, r')
                        | None \<Rightarrow> None)
                   | None \<Rightarrow> None))
      else if (of_char c :: nat) < 32 then None
      else (case read_chars cs of Some (t, r') \<Rightarrow> Some (c # t, r') | None \<Rightarrow> None))"

definition read_string :: "string \<Rightarrow> (string \<times> string) option" where
  "read_string s =
     (case s of [] \<Rightarrow> None | c # cs \<Rightarrow> if c = CHR 0x22 then read_chars cs else None)"

text \<open>
  The ids a session has issued once its registry holds \<open>n\<close> records: those of
  \<open>DEFAULT_PACKS\<close>, then \<open>pack_4\<close>, \<open>pack_5\<close> and so on, one for each record added.
\<close>

definition issued_ids :: "nat \<Rightarrow> string list" where
  "issued_ids n = DEFAULT_PACK_IDS @ map (\<lambda>k. ''pack_'' @ number_to_string k) [4..<Suc n]"

section \<open>Example data\<close>

text \<open>
  A pack with the values of the scenario of the specification, a registry of three
  records with the ids of \<open>DEFAULT_PACKS\<close>, and a state over it whose selection is the
  second record.
\<close>

definition example_pack :: PackPrompt where
  "example_pack =
     \<lparr>id_str = ''us_id'', name = ''US ID Cards'', packName = ''US_ID_V1'', goal = ''G'',
      perImage = ''a\<newline>b'', systemNotes = ''N''\<rparr>"

definition example_packs :: "PackPrompt list" where
  "example_packs =
     [\<lparr>id_str = ''tr_invoice'', name = ''Turkish Invoice Pack'', packName = ''TR_INVOICE'',
       goal = ''G1'', perImage = ''x'', systemNotes = ''N1''\<rparr>,
      example_pack,
      \<lparr>id_str = ''parking_tickets'', name = ''Parking Ticket Notices'',
       packName = ''PARKING_NOTICE_EU'', goal = ''G3'', perImage = ''y'', systemNotes = ''N3''\<rparr>]"

definition example_state :: home_state where
  "example_state =
     \<lparr>metaPrompt = ''Generate {{count}} images for {{pack_name}}'',
      variables = [(''count'', ''10''), (''pack_name'', ''US_ID_V1'')],
      packs = example_packs,
      selectedPackId = ''us_id''\<rparr>"

text \<open>
  A state whose one pack has a directive line with white space around it, whose
  selection matches no record, whose template has a resolved and an unresolved marker,
  and whose variables hold an entry the template does not use, with double quotes in
  its value.
\<close>

definition snapshot_state :: home_state where
  \<open>snapshot_state =
     \<lparr>metaPrompt = ''Make {{count}} for {{x}}'',
      variables = [(''count'', ''10''), (''old'', ''say "hi"'')],
      packs = [example_pack\<lparr>perImage := '' a \<newline>b''\<rparr>],
      selectedPackId = ''zz''\<rparr>\<close>

section \<open>Lists of lines\<close>

lemma split_from_not_Nil: "split_from sep cur s \<noteq> []"
  by (induction s arbitrary: cur) auto

lemma split_not_Nil: "split s sep \<noteq> []"
  by (simp add: split_def split_from_not_Nil)

lemma join_Cons: "ys \<noteq> [] \<Longrightarrow> join (x # ys) sep = x @ sep @ join ys sep"
  by (cases ys) auto

lemma join_append:
  "xs \<noteq> [] \<Longrightarrow> ys \<noteq> [] \<Longrightarrow> join (xs @ ys) sep = join xs sep @ sep @ join ys sep"
proof (induction xs)
  case Nil
  then show ?case by simp
next
  case (Cons x xs)
  show ?case
  proof (cases "xs = []")
    case True
    with Cons.prems show ?thesis by (simp add: join_Cons)
  next
    case False
    with Cons show ?thesis by (simp add: join_Cons)
  qed
qed

lemma split_from_join: "join (split_from sep cur s) [sep] = cur @ s"
  by (induction s arbitrary: cur) (auto simp: join_Cons split_from_not_Nil)

lemma join_split: "join (split s sep) [sep] = s"
  by (simp add: split_def split_from_join)

lemma split_length: "length (split s sep) = Suc (count_list s sep)"
proof -
  have "length (split_from sep cur s) = Suc (count_list s sep)" for cur
    by (induction s arbitrary: cur) auto
  then show ?thesis by (simp add: split_def)
qed

section \<open>The pack section and the combined text\<close>

text \<open>
  C3, as the specification states it: the pack section would have a blank line between
  the "Pack Name" line and the "Objective" line. For the pack of the scenario
  (packName \<open>US_ID_V1\<close>, goal \<open>G\<close>, directives \<open>a\<close> and \<open>b\<close>, notes \<open>N\<close>) the text the
  function returns is not the text the scenario lists.
\<close>

theorem packToMarkdown_scenario_counterexample:
  "packToMarkdown example_pack \<noteq>
     ''Pack Name: US_ID_V1\<newline>\<newline>Objective: G\<newline>\<newline>Per Image Directives:\<newline>- a\<newline>- b\<newline>\<newline>System Notes: N''"
  by (simp add: packToMarkdown_def example_pack_def split_def newline_def)

text \<open>
  C3, amended: for every pack record the pack section is these lines joined by line
  feeds, in this order: the "Pack Name:" line, the "Objective:" line right after it, a
  blank line, the "Per Image Directives:" heading, one \<open>- \<close> bullet for each line of the
  directive list (the pieces between its line feeds, which joined again give the
  list), a blank line, and the "System Notes:" line. For the pack of the scenario that
  is \<open>Pack Name: US_ID_V1\<close>, \<open>Objective: G\<close>, blank, \<open>Per Image Directives:\<close>, \<open>- a\<close>,
  \<open>- b\<close>, blank, \<open>System Notes: N\<close>.
\<close>

theorem packToMarkdown_lines:
  "packToMarkdown pack =
     join ([''Pack Name: '' @ packName pack, ''Objective: '' @ goal pack, [],
            ''Per Image Directives:'']
           @ map (\<lambda>line. ''- '' @ line) (split (perImage pack) newline)
           @ [[], ''System Notes: '' @ systemNotes pack]) [newline]
   \<and> join (split (perImage pack) newline) [newline] = perImage pack
   \<and> packToMarkdown example_pack =
       ''Pack Name: US_ID_V1\<newline>Objective: G\<newline>\<newline>Per Image Directives:\<newline>- a\<newline>- b\<newline>\<newline>System Notes: N''"
proof -
  let ?bs = "map (\<lambda>line. ''- '' @ line) (split (perImage pack) newline)"
  have ne: "?bs \<noteq> []" by (simp add: split_not_Nil)
  have "join (?bs @ [[], ''System Notes: '' @ systemNotes pack]) [newline]
      = join ?bs [newline] @ [newline] @ join [[], ''System Notes: '' @ systemNotes pack] [newline]"
    using ne by (simp add: join_append)
  then have 1: "packToMarkdown pack =
     join ([''Pack Name: '' @ packName pack, ''Objective: '' @ goal pack, [],
            ''Per Image Directives:''] @ ?bs @ [[], ''System Notes: '' @ systemNotes pack]) [newline]"
    using ne by (simp add: packToMarkdown_def join_Cons)
  have 2: "packToMarkdown example_pack =
       ''Pack Name: US_ID_V1\<newline>Objective: G\<newline>\<newline>Per Image Directives:\<newline>- a\<newline>- b\<newline>\<newline>System Notes: N''"
    by (simp add: packToMarkdown_def example_pack_def split_def newline_def)
  from 1 2 show ?thesis by (simp add: join_split)
qed

text \<open>
  C8: the combined text of a state is the composition of its rendered template and its
  active pack; with an active pack that is the rendered template, then the divider
  (two line feeds, three hyphens, two line feeds), then the pack section of the record;
  with no active pack it is the rendered template alone.
\<close>

theorem compose_divider:
  "combinedPrompt st = compose (finalPrompt st) (selectedPack st)
   \<and> compose rendered (Some pack) = rendered @ ''\<newline>\<newline>---\<newline>\<newline>'' @ packToMarkdown pack
   \<and> compose rendered None = rendered"
  by (simp add: combinedPrompt_def compose_def divider_def newline_def)

section \<open>The registry\<close>

lemma find_id_None: "i \<notin> id_str ` set ps \<Longrightarrow> find (\<lambda>p. id_str p = i) ps = None"
  by (induction ps) auto

lemma find_Some_set: "find P xs = Some x \<Longrightarrow> x \<in> set xs \<and> P x"
  by (induction xs) (auto split: if_splits)

lemma map_of_replace_same:
  "map_of (map (\<lambda>(k', v'). if k' = key then (k', v) else (k', v')) ps) key =
     (case map_of ps key of None \<Rightarrow> None | Some u \<Rightarrow> Some v)"
  by (induction ps) (auto split: option.splits)

lemma map_of_replace_other:
  "k \<noteq> key \<Longrightarrow>
   map_of (map (\<lambda>(k', v'). if k' = key then (k', v) else (k', v')) ps) k = map_of ps k"
  by (induction ps) auto

lemma map_of_insert_index:
  "key \<notin> fst ` set ps \<Longrightarrow> map_of (insert_index n key v ps) = (map_of ps)(key \<mapsto> v)"
  by (induction ps) (auto split: option.splits simp: fun_upd_twist)

text \<open>Setting a property gives the object that maps the key to the value, and the others as before.\<close>

lemma map_of_set_prop: "map_of (set_prop prev key v) = (map_of prev)(key \<mapsto> v)"
proof (cases "key \<in> fst ` set prev")
  case True
  then obtain u where "map_of prev key = Some u"
    by (metis map_of_eq_None_iff not_Some_eq)
  with True show ?thesis
    by (intro ext) (simp add: set_prop_def map_of_replace_same map_of_replace_other)
next
  case False
  then have "map_of prev key = None" by (simp add: map_of_eq_None_iff)
  with False show ?thesis
    by (intro ext) (auto simp: set_prop_def map_of_insert_index map_add_def split: option.splits)
qed

lemma get_prop_set_prop:
  "get_prop (set_prop prev key v) k = (if k = key then Str v else get_prop prev k)"
  by (simp add: get_prop_def map_of_set_prop)

text \<open>
  C1, as the specification states it: selecting an id that matches no record would
  leave the active selection as it was. In the example state the selection is the
  second record; after \<open>handleSelectPack\<close> with an id of no record the stored selection
  is that id and the active pack is the first record.
\<close>

theorem select_missing_counterexample:
  "''no_such_pack'' \<notin> set (map id_str (packs example_state))
   \<and> selectedPackId (handleSelectPack ''no_such_pack'' example_state) \<noteq> selectedPackId example_state
   \<and> selectedPack (handleSelectPack ''no_such_pack'' example_state) \<noteq> selectedPack example_state
   \<and> selectedPack example_state = Some (example_packs ! 1)
   \<and> selectedPack (handleSelectPack ''no_such_pack'' example_state) = Some (example_packs ! 0)"
  by (simp add: handleSelectPack_def selectedPack_def example_state_def example_packs_def
      example_pack_def)

text \<open>
  C1, amended: for every state and every id that matches no pack record, selecting the
  id changes nothing but the stored selection id, which becomes that id: the pack
  records, the variables (so \<open>pack_name\<close> too) and the template are as before. The
  active pack is then the first record of the registry, or none when the registry is
  empty. The handler returns nothing, so it tells its caller nothing.
\<close>

theorem select_missing:
  assumes "packId \<notin> set (map id_str (packs st))"
  shows "handleSelectPack packId st = st\<lparr>selectedPackId := packId\<rparr>
    \<and> packs (handleSelectPack packId st) = packs st
    \<and> variables (handleSelectPack packId st) = variables st
    \<and> metaPrompt (handleSelectPack packId st) = metaPrompt st
    \<and> selectedPackId (handleSelectPack packId st) = packId
    \<and> selectedPack (handleSelectPack packId st) =
        (case packs st of [] \<Rightarrow> None | pack # _ \<Rightarrow> Some pack)"
proof -
  from assms have "find (\<lambda>p. id_str p = packId) (packs st) = None"
    by (simp add: find_id_None)
  then show ?thesis by (simp add: handleSelectPack_def selectedPack_def)
qed

theorem select_missing_witness:
  "''no_such_pack'' \<notin> set (map id_str (packs example_state))
   \<and> selectedPackId (handleSelectPack ''no_such_pack'' example_state) = ''no_such_pack''
   \<and> packs (handleSelectPack ''no_such_pack'' example_state) = packs example_state
   \<and> variables (handleSelectPack ''no_such_pack'' example_state) = variables example_state
   \<and> selectedPack (handleSelectPack ''no_such_pack'' example_state) = Some (hd example_packs)"
proof -
  have h: "''no_such_pack'' \<notin> set (map id_str (packs example_state))"
    by (simp add: example_state_def example_packs_def example_pack_def)
  have p: "(case packs example_state of [] \<Rightarrow> None | pack # _ \<Rightarrow> Some pack)
             = Some (hd example_packs)"
    by (simp add: example_state_def example_packs_def)
  from select_missing [OF h] have
    "selectedPackId (handleSelectPack ''no_such_pack'' example_state) = ''no_such_pack''"
    "packs (handleSelectPack ''no_such_pack'' example_state) = packs example_state"
    "variables (handleSelectPack ''no_such_pack'' example_state) = variables example_state"
    "selectedPack (handleSelectPack ''no_such_pack'' example_state) = Some (hd example_packs)"
    unfolding p by blast+
  with h show ?thesis by blast
qed

text \<open>
  C10: the active pack is none exactly when the registry is empty. For a registry that
  is not empty it is one of the records, and the first record when the stored selection
  id matches none. So the combined text is the rendered template alone (no divider)
  exactly when the registry is empty, and the pack field of the snapshot is \<open>null\<close>
  exactly when the registry is empty.
\<close>

theorem selectedPack_fallback:
  "(selectedPack st = None) = (packs st = [])
   \<and> (packs st \<noteq> [] \<longrightarrow> (\<exists>pack \<in> set (packs st). selectedPack st = Some pack))
   \<and> (packs st \<noteq> [] \<and> selectedPackId st \<notin> set (map id_str (packs st))
        \<longrightarrow> selectedPack st = Some (hd (packs st)))
   \<and> (combinedPrompt st = finalPrompt st) = (packs st = [])
   \<and> (pack_json (selectedPack st) = JNull) = (packs st = [])"
proof -
  have 1: "(selectedPack st = None) = (packs st = [])"
    by (auto simp: selectedPack_def split: option.splits list.splits)
  have 2: "packs st \<noteq> [] \<longrightarrow> (\<exists>pack \<in> set (packs st). selectedPack st = Some pack)"
    by (auto simp: selectedPack_def split: option.splits list.splits dest: find_Some_set)
  have 3: "packs st \<noteq> [] \<and> selectedPackId st \<notin> set (map id_str (packs st))
        \<longrightarrow> selectedPack st = Some (hd (packs st))"
    by (auto simp: selectedPack_def find_id_None split: list.splits)
  have 4: "(combinedPrompt st = finalPrompt st) = (selectedPack st = None)"
    by (auto simp: combinedPrompt_def compose_def divider_def split: option.splits)
  have 5: "(pack_json (selectedPack st) = JNull) = (selectedPack st = None)"
    by (auto simp: pack_json_def split: option.splits)
  from 1 2 3 4 5 show ?thesis by simp
qed

theorem selectedPack_fallback_witness:
  "packs (example_state\<lparr>selectedPackId := ''gone''\<rparr>) \<noteq> []
   \<and> ''gone'' \<notin> set (map id_str (packs (example_state\<lparr>selectedPackId := ''gone''\<rparr>)))
   \<and> selectedPack (example_state\<lparr>selectedPackId := ''gone''\<rparr>) = Some (hd example_packs)
   \<and> combinedPrompt (example_state\<lparr>selectedPackId := ''gone''\<rparr>)
        \<noteq> finalPrompt (example_state\<lparr>selectedPackId := ''gone''\<rparr>)
   \<and> selectedPack (example_state\<lparr>packs := []\<rparr>) = None
   \<and> combinedPrompt (example_state\<lparr>packs := []\<rparr>) = finalPrompt (example_state\<lparr>packs := []\<rparr>)"
  using selectedPack_fallback [of "example_state\<lparr>selectedPackId := ''gone''\<rparr>"]
    selectedPack_fallback [of "example_state\<lparr>packs := []\<rparr>"]
  by (simp add: example_state_def example_packs_def example_pack_def)

subsection \<open>Editing a field\<close>

lemma get_set_field_same: "get_field (set_field pack field v) field = v"
  by (cases field) auto

lemma get_set_field_other: "f \<noteq> field \<Longrightarrow> get_field (set_field pack field v) f = get_field pack f"
  by (cases field; cases f) auto

text \<open>
  C7: \<open>handlePackFieldChange\<close> edits the records whose id is the stored selection id.
  The registry keeps its length; every record with that id becomes the record with the
  one field set to the value, and every other record is as before; setting a field of a
  record gives that field the value and leaves the other five fields as they were; the
  selection and the template are as before. When the field is \<open>packName\<close> the variable
  \<open>pack_name\<close> is set to the value, so reading it after an edit of \<open>packName\<close> to
  \<open>FOO\<close> yields \<open>FOO\<close>, and every other variable reads as before; for any other field
  the variables are unchanged.
\<close>

theorem handlePackFieldChange_frame:
  "length (packs (handlePackFieldChange field v st)) = length (packs st)
   \<and> (\<forall>i < length (packs st).
        packs (handlePackFieldChange field v st) ! i =
          (if id_str (packs st ! i) = selectedPackId st
           then set_field (packs st ! i) field v else packs st ! i))
   \<and> get_field (set_field pack field v) field = v
   \<and> (\<forall>f. f \<noteq> field \<longrightarrow> get_field (set_field pack field v) f = get_field pack f)
   \<and> selectedPackId (handlePackFieldChange field v st) = selectedPackId st
   \<and> metaPrompt (handlePackFieldChange field v st) = metaPrompt st
   \<and> (field = F_packName \<longrightarrow>
        variables (handlePackFieldChange field v st) = set_prop (variables st) ''pack_name'' v
        \<and> get_prop (variables (handlePackFieldChange field v st)) ''pack_name'' = Str v
        \<and> (\<forall>k. k \<noteq> ''pack_name'' \<longrightarrow>
              get_prop (variables (handlePackFieldChange field v st)) k = get_prop (variables st) k))
   \<and> (field \<noteq> F_packName \<longrightarrow> variables (handlePackFieldChange field v st) = variables st)"
  by (simp add: handlePackFieldChange_def Let_def handleVariableChange_def get_prop_set_prop
      get_set_field_same get_set_field_other)

theorem handlePackFieldChange_frame_witness:
  "packs (handlePackFieldChange F_packName ''FOO'' example_state) =
     [example_packs ! 0, example_pack\<lparr>packName := ''FOO''\<rparr>, example_packs ! 2]
   \<and> get_prop (variables (handlePackFieldChange F_packName ''FOO'' example_state)) ''pack_name''
        = Str ''FOO''
   \<and> get_prop (variables (handlePackFieldChange F_packName ''FOO'' example_state)) ''count''
        = Str ''10''
   \<and> variables (handlePackFieldChange F_goal ''FOO'' example_state) = variables example_state"
proof -
  note t = handlePackFieldChange_frame [of F_packName "''FOO''" example_state example_pack]
  note u = handlePackFieldChange_frame [of F_goal "''FOO''" example_state example_pack]
  have l: "length (packs example_state) = 3"
    by (simp add: example_state_def example_packs_def)
  from t l have len: "length (packs (handlePackFieldChange F_packName ''FOO'' example_state)) = 3"
    by simp
  from t have nth: "\<forall>i < length (packs example_state).
        packs (handlePackFieldChange F_packName ''FOO'' example_state) ! i =
          (if id_str (packs example_state ! i) = selectedPackId example_state
           then set_field (packs example_state ! i) F_packName ''FOO'' else packs example_state ! i)"
    by blast
  have "packs (handlePackFieldChange F_packName ''FOO'' example_state) ! i =
     [example_packs ! 0, example_pack\<lparr>packName := ''FOO''\<rparr>, example_packs ! 2] ! i"
    if "i < 3" for i
  proof -
    from that consider "i = 0" | "i = 1" | "i = 2" by linarith
    then show ?thesis
      using nth l
      by cases (simp_all add: example_state_def example_packs_def example_pack_def)
  qed
  with len have p: "packs (handlePackFieldChange F_packName ''FOO'' example_state) =
     [example_packs ! 0, example_pack\<lparr>packName := ''FOO''\<rparr>, example_packs ! 2]"
    by (intro nth_equalityI) simp_all
  from t have v1: "get_prop (variables (handlePackFieldChange F_packName ''FOO'' example_state)) ''pack_name''
        = Str ''FOO''" by blast
  from t have a: "\<forall>k. k \<noteq> ''pack_name'' \<longrightarrow>
      get_prop (variables (handlePackFieldChange F_packName ''FOO'' example_state)) k
        = get_prop (variables example_state) k" by blast
  from a have "get_prop (variables (handlePackFieldChange F_packName ''FOO'' example_state)) ''count''
        = get_prop (variables example_state) ''count''" by simp
  then have v2: "get_prop (variables (handlePackFieldChange F_packName ''FOO'' example_state)) ''count''
        = Str ''10''" by (simp add: example_state_def get_prop_def)
  from u have "F_goal \<noteq> F_packName \<longrightarrow>
      variables (handlePackFieldChange F_goal ''FOO'' example_state) = variables example_state"
    by (elim conjE)
  then have v3: "variables (handlePackFieldChange F_goal ''FOO'' example_state) = variables example_state"
    by simp
  from p v1 v2 v3 show ?thesis by (intro conjI)
qed

subsection \<open>Adding a pack\<close>

lemma of_char_digit_char: "d < 10 \<Longrightarrow> (of_char (digit_char d) :: nat) = 48 + d"
  by (simp add: digit_char_def)

lemma digits_value_snoc:
  "digits_value (xs @ [c]) = 10 * digits_value xs + ((of_char c :: nat) - 48)"
  by (simp add: digits_value_def)

lemma digits_value_number_to_string: "digits_value (number_to_string n) = n"
proof (induction n rule: number_to_string.induct)
  case (1 n)
  show ?case
  proof (cases "n < 10")
    case True
    then show ?thesis
      by (simp add: number_to_string.simps [of n] digits_value_def of_char_digit_char)
  next
    case False
    with 1 have "digits_value (number_to_string (n div 10)) = n div 10" by simp
    with False show ?thesis
      by (simp add: number_to_string.simps [of n] digits_value_snoc of_char_digit_char)
  qed
qed

lemma number_to_string_inject: "number_to_string m = number_to_string n \<Longrightarrow> m = n"
  by (metis digits_value_number_to_string)

lemma ids_handleVariableChange [simp]: "packs (handleVariableChange key v st) = packs st"
  by (simp add: handleVariableChange_def)

lemma ids_handleSelectPack: "packs (handleSelectPack packId st) = packs st"
  by (simp add: handleSelectPack_def Let_def split: option.splits)

lemma id_str_set_field: "field \<noteq> F_id \<Longrightarrow> id_str (set_field pack field v) = id_str pack"
  by (cases field) auto

lemma ids_handlePackFieldChange:
  "field \<noteq> F_id \<Longrightarrow>
   map id_str (packs (handlePackFieldChange field v st)) = map id_str (packs st)"
  by (simp add: handlePackFieldChange_def Let_def id_str_set_field)

lemma packs_addNewPack:
  "packs (addNewPack st) = packs st @ [newPack (length (packs st) + 1)]"
  by (simp add: addNewPack_def Let_def)

lemma reachable_ids:
  "reachable st \<Longrightarrow> map id_str (packs st) = issued_ids (length (packs st))"
proof (induction rule: reachable.induct)
  case (start st)
  then have "length (packs st) = 3"
    by (metis DEFAULT_PACK_IDS_def length_map length_Cons list.size(3) numeral_3_eq_3)
  with start show ?case by (simp add: issued_ids_def)
next
  case (add st)
  let ?n = "length (packs st)"
  from add.IH have "length (map id_str (packs st)) = length (issued_ids ?n)" by simp
  then have "3 \<le> ?n" by (simp add: issued_ids_def DEFAULT_PACK_IDS_def)
  then have "[4..<Suc (Suc ?n)] = [4..<Suc ?n] @ [Suc ?n]" by simp
  with add.IH show ?case
    by (simp add: packs_addNewPack issued_ids_def newPack_def)
next
  case (select st packId)
  then show ?case by (simp add: ids_handleSelectPack)
next
  case (edit st field v)
  from ids_handlePackFieldChange [OF edit.hyps(2), of v st]
  have "length (packs (handlePackFieldChange field v st)) = length (packs st)"
    by (metis length_map)
  with edit ids_handlePackFieldChange [OF edit.hyps(2), of v st] show ?case by simp
next
  case (variable st key v)
  then show ?case by simp
next
  case (template st t)
  then show ?case by simp
qed

lemma fresh_id: "''pack_'' @ number_to_string (Suc n) \<notin> set (issued_ids n)"
  by (auto simp: issued_ids_def DEFAULT_PACK_IDS_def dest: number_to_string_inject)

lemma distinct_issued_ids: "distinct (issued_ids n)"
  by (auto simp: issued_ids_def DEFAULT_PACK_IDS_def distinct_map inj_on_def
      dest: number_to_string_inject)

lemma find_snoc:
  "find P (xs @ [x]) = (case find P xs of Some y \<Rightarrow> Some y | None \<Rightarrow> if P x then Some x else None)"
  by (induction xs) auto

lemma reachable_example: "reachable example_state"
  by (rule reachable.start)
    (simp add: example_state_def example_packs_def example_pack_def DEFAULT_PACK_IDS_def)

text \<open>
  C6: in every state a session reaches, \<open>addNewPack\<close> makes the registry one record
  longer by appending the new record; the id of the new record is the id of no record
  of the registry (which holds every id issued so far, since no handler removes a
  record or changes an id), and the ids stay distinct; the stored selection is the new
  id and the active pack is the new record; the variable \<open>pack_name\<close> reads the pack
  name of the new record.
\<close>

theorem addNewPack_fresh:
  assumes "reachable st"
  shows "length (packs (addNewPack st)) = length (packs st) + 1
   \<and> packs (addNewPack st) = packs st @ [newPack (length (packs st) + 1)]
   \<and> id_str (newPack (length (packs st) + 1)) \<notin> set (map id_str (packs st))
   \<and> distinct (map id_str (packs (addNewPack st)))
   \<and> selectedPackId (addNewPack st) = id_str (newPack (length (packs st) + 1))
   \<and> selectedPack (addNewPack st) = Some (newPack (length (packs st) + 1))
   \<and> get_prop (variables (addNewPack st)) ''pack_name''
        = Str (packName (newPack (length (packs st) + 1)))
   \<and> reachable (addNewPack st)"
proof -
  let ?n = "length (packs st)"
  let ?new = "newPack (?n + 1)"
  have ids: "map id_str (packs st) = issued_ids ?n"
    using assms by (rule reachable_ids)
  have fresh: "id_str ?new \<notin> set (map id_str (packs st))"
    unfolding ids using fresh_id [of ?n] by (simp add: newPack_def)
  have r: "reachable (addNewPack st)"
    using assms by (rule reachable.add)
  have "map id_str (packs (addNewPack st)) = issued_ids (length (packs (addNewPack st)))"
    using r by (rule reachable_ids)
  then have d: "distinct (map id_str (packs (addNewPack st)))"
    by (simp add: distinct_issued_ids)
  from fresh have "find (\<lambda>p. id_str p = id_str ?new) (packs st) = None"
    by (simp add: find_id_None)
  then have sel: "selectedPack (addNewPack st) = Some ?new"
    by (simp add: selectedPack_def addNewPack_def Let_def handleVariableChange_def find_snoc)
  have var: "get_prop (variables (addNewPack st)) ''pack_name'' = Str (packName ?new)"
    by (simp add: addNewPack_def Let_def handleVariableChange_def get_prop_set_prop)
  have sid: "selectedPackId (addNewPack st) = id_str ?new"
    by (simp add: addNewPack_def Let_def handleVariableChange_def)
  from fresh r d sel var sid show ?thesis
    by (simp add: packs_addNewPack)
qed

theorem addNewPack_fresh_witness:
  "reachable example_state
   \<and> length (packs (addNewPack example_state)) = 4
   \<and> id_str (newPack 4) = ''pack_4''
   \<and> ''pack_4'' \<notin> set (map id_str (packs example_state))
   \<and> selectedPackId (addNewPack example_state) = ''pack_4''
   \<and> selectedPack (addNewPack example_state) = Some (newPack 4)
   \<and> get_prop (variables (addNewPack example_state)) ''pack_name'' = Str ''PACK_4''"
proof -
  have n: "length (packs example_state) + 1 = 4"
    by (simp add: example_state_def example_packs_def)
  have i: "id_str (newPack 4) = ''pack_4''" "packName (newPack 4) = ''PACK_4''"
    by code_simp+
  from addNewPack_fresh [OF reachable_example] show ?thesis
    unfolding n i using reachable_example n by simp
qed

section \<open>What the regular expression matches\<close>

lemma space_not_brace: "is_space c \<Longrightarrow> \<not> is_brace c"
  by (auto simp: is_space_def is_brace_def)

lemma close_braces_Some_iff: "(close_braces s = Some r) = (s = ''}}'' @ r)"
  by (induction s rule: close_braces.induct) auto

lemma trail_ws_eq: "trail_ws s = close_braces (dropWhile is_space s)"
proof (induction s)
  case Nil
  show ?case by simp
next
  case (Cons c cs)
  show ?case
  proof (cases "is_space c")
    case True
    then have "close_braces (c # cs) = None"
      by (cases cs) (auto simp: is_space_def)
    with True Cons show ?thesis by (simp split: option.splits)
  next
    case False
    then show ?thesis by simp
  qed
qed

lemma dropWhile_space_brace:
  "dropWhile (\<lambda>c. \<not> is_brace c) (dropWhile is_space s) = dropWhile (\<lambda>c. \<not> is_brace c) s"
  by (induction s) (auto simp: space_not_brace)

lemma close_braces_dropWhile_space:
  assumes "close_braces (dropWhile is_space s) = Some r"
  shows "close_braces (dropWhile (\<lambda>c. \<not> is_brace c) s) = Some r"
proof -
  from assms have e: "dropWhile is_space s = ''}}'' @ r" by (simp add: close_braces_Some_iff)
  have "dropWhile (\<lambda>c. \<not> is_brace c) (dropWhile is_space s) = dropWhile is_space s"
    unfolding e by (simp add: is_brace_def)
  then have "dropWhile (\<lambda>c. \<not> is_brace c) s = dropWhile is_space s"
    by (simp add: dropWhile_space_brace)
  with assms show ?thesis by simp
qed

lemma lazy_group_rest:
  "map_option snd (lazy_group acc s) = close_braces (dropWhile (\<lambda>c. \<not> is_brace c) s)"
proof (induction s arbitrary: acc)
  case Nil
  show ?case by (simp add: lazy_group.simps [of _ "[]"])
next
  case (Cons c cs)
  show ?case
  proof (cases "trail_ws (c # cs)")
    case (Some r)
    then have "close_braces (dropWhile (\<lambda>c. \<not> is_brace c) (c # cs)) = Some r"
      by (intro close_braces_dropWhile_space) (simp only: trail_ws_eq)
    moreover from Some have "lazy_group acc (c # cs) = Some (acc, r)"
      by (simp add: lazy_group.simps [of _ "c # cs"])
    ultimately show ?thesis by simp
  next
    case None
    show ?thesis
    proof (cases "is_brace c")
      case True
      then have "\<not> is_space c" using space_not_brace by blast
      with None have "close_braces (c # cs) = None" by (simp add: trail_ws_eq)
      with None True show ?thesis by (simp add: lazy_group.simps [of _ "c # cs"])
    next
      case False
      with None have "lazy_group acc (c # cs) = lazy_group (acc @ [c]) cs"
        by (simp add: lazy_group.simps [of _ "c # cs"])
      with False Cons.IH [of "acc @ [c]"] show ?thesis by simp
    qed
  qed
qed

lemma group1_rest: "map_option snd (group1 s) = body_rest s"
  by (cases s) (auto simp: group1_def body_rest_def lazy_group_rest)

lemma body_rest_space: "is_space c \<Longrightarrow> body_rest cs = Some r \<Longrightarrow> body_rest (c # cs) = Some r"
  by (auto simp: body_rest_def space_not_brace split: if_splits)

lemma lead_ws_rest: "map_option snd (lead_ws s) = body_rest s"
proof (induction s)
  case Nil
  show ?case using group1_rest [of "[]"] by simp
next
  case (Cons c cs)
  show ?case
  proof (cases "is_space c \<and> lead_ws cs \<noteq> None")
    case True
    then obtain m where m: "lead_ws cs = Some m" by auto
    with Cons have "body_rest cs = Some (snd m)" by simp
    with True have "body_rest (c # cs) = Some (snd m)" by (simp add: body_rest_space)
    with True m show ?thesis by simp
  next
    case False
    then have "lead_ws (c # cs) = group1 (c # cs)" by (auto split: option.splits)
    then show ?thesis by (simp add: group1_rest)
  qed
qed

lemma match_here_rest:
  "map_option snd (match_here s) =
     (case s of c1 # c2 # r \<Rightarrow> if c1 = CHR ''{'' \<and> c2 = CHR ''{'' then body_rest r else None
      | _ \<Rightarrow> None)"
  by (simp add: match_here_def lead_ws_rest split: list.splits)

lemma close_braces_None_iff: "(close_braces s = None) = (take 2 s \<noteq> ''}}'')"
  by (induction s rule: close_braces.induct) auto

lemma match_here_None_iff: "(match_here s = None) = (\<not> marker_at s)"
proof -
  have "(match_here s = None) = (map_option snd (match_here s) = None)" by simp
  also have "\<dots> = (\<not> marker_at s)"
    unfolding match_here_rest
    by (auto simp: marker_at_def body_rest_def close_braces_None_iff split: list.splits)
  finally show ?thesis .
qed

lemma regex_exec_None_iff: "(regex_exec s = None) = (\<not> has_marker s)"
proof (induction s)
  case Nil
  show ?case by simp
next
  case (Cons c cs)
  show ?case
  proof (cases "match_here (c # cs)")
    case None
    then have "\<not> marker_at (c # cs)" by (simp add: match_here_None_iff)
    with None Cons show ?thesis by (cases "regex_exec cs") auto
  next
    case (Some m)
    then have "marker_at (c # cs)" using match_here_None_iff [of "c # cs"] by simp
    with Some show ?thesis by (simp split: prod.splits)
  qed
qed

lemma marker_at_iff:
  "marker_at s =
     (\<exists>body post. s = ''{{'' @ body @ ''}}'' @ post \<and> body \<noteq> [] \<and> list_all (\<lambda>c. \<not> is_brace c) body)"
proof
  assume m: "marker_at s"
  then obtain r where s: "s = ''{{'' @ r" 
    by (auto simp: marker_at_def split: list.splits)
  let ?b = "takeWhile (\<lambda>c. \<not> is_brace c) r"
  let ?d = "dropWhile (\<lambda>c. \<not> is_brace c) r"
  from m s have b: "?b \<noteq> []" and d: "take 2 ?d = ''}}''"
    by (auto simp: marker_at_def)
  from d have "?d = ''}}'' @ drop 2 ?d" by (metis append_take_drop_id)
  then have "r = ?b @ ''}}'' @ drop 2 ?d" by (metis takeWhile_dropWhile_id)
  moreover have "list_all (\<lambda>c. \<not> is_brace c) ?b"
    by (auto simp: list_all_iff dest: set_takeWhileD)
  ultimately show "\<exists>body post. s = ''{{'' @ body @ ''}}'' @ post \<and> body \<noteq> []
      \<and> list_all (\<lambda>c. \<not> is_brace c) body"
    using s b by (metis append.assoc)
next
  assume "\<exists>body post. s = ''{{'' @ body @ ''}}'' @ post \<and> body \<noteq> []
      \<and> list_all (\<lambda>c. \<not> is_brace c) body"
  then obtain body post where s: "s = ''{{'' @ body @ ''}}'' @ post" and b: "body \<noteq> []"
    and nb: "list_all (\<lambda>c. \<not> is_brace c) body" by blast
  from nb have t: "takeWhile (\<lambda>c. \<not> is_brace c) (body @ ''}}'' @ post) = body"
    by (simp add: list_all_iff takeWhile_append2 is_brace_def)
  from nb have d: "dropWhile (\<lambda>c. \<not> is_brace c) (body @ ''}}'' @ post) = ''}}'' @ post"
    by (simp add: list_all_iff dropWhile_append2 is_brace_def)
  from t d b show "marker_at s" unfolding s by (simp add: marker_at_def)
qed

lemma has_marker_iff:
  "has_marker s =
     (\<exists>pre body post. s = pre @ ''{{'' @ body @ ''}}'' @ post \<and> body \<noteq> []
        \<and> list_all (\<lambda>c. \<not> is_brace c) body)"
proof (induction s)
  case Nil
  show ?case by simp
next
  case (Cons c cs)
  show ?case
  proof
    assume "has_marker (c # cs)"
    then consider "marker_at (c # cs)" | "has_marker cs" by auto
    then show "\<exists>pre body post. c # cs = pre @ ''{{'' @ body @ ''}}'' @ post \<and> body \<noteq> []
        \<and> list_all (\<lambda>c. \<not> is_brace c) body"
    proof cases
      case 1
      then obtain body post where "c # cs = [] @ ''{{'' @ body @ ''}}'' @ post" "body \<noteq> []"
        "list_all (\<lambda>c. \<not> is_brace c) body"
        unfolding marker_at_iff by auto
      then show ?thesis by blast
    next
      case 2
      with Cons obtain pre body post where "cs = pre @ ''{{'' @ body @ ''}}'' @ post" "body \<noteq> []"
        "list_all (\<lambda>c. \<not> is_brace c) body" by blast
      then have "c # cs = (c # pre) @ ''{{'' @ body @ ''}}'' @ post" by simp
      with \<open>body \<noteq> []\<close> \<open>list_all (\<lambda>c. \<not> is_brace c) body\<close> show ?thesis by blast
    qed
  next
    assume "\<exists>pre body post. c # cs = pre @ ''{{'' @ body @ ''}}'' @ post \<and> body \<noteq> []
        \<and> list_all (\<lambda>c. \<not> is_brace c) body"
    then obtain pre body post where e: "c # cs = pre @ ''{{'' @ body @ ''}}'' @ post"
      and b: "body \<noteq> []" "list_all (\<lambda>c. \<not> is_brace c) body" by blast
    show "has_marker (c # cs)"
    proof (cases pre)
      case Nil
      with e b have "marker_at (c # cs)" unfolding marker_at_iff by auto
      then show ?thesis by simp
    next
      case (Cons p ps)
      with e have "cs = ps @ ''{{'' @ body @ ''}}'' @ post" by simp
      with b Cons.IH have "has_marker cs" by blast
      then show ?thesis by simp
    qed
  qed
qed

lemma replace_all_no_marker: "\<not> has_marker s \<Longrightarrow> replace_all f s = s"
  by (simp add: replace_all.simps [of f s] regex_exec_None_iff [symmetric])

section \<open>The scanner\<close>

lemma detect_loop_foldl:
  "detect_loop keys s = foldl Set_add keys (placeholder_names s)"
proof (induction keys s rule: detect_loop.induct)
  case (1 keys s)
  show ?case
  proof (cases "regex_exec s")
    case None
    then show ?thesis
      by (simp add: detect_loop.simps [of keys s] exec_groups.simps [of s] placeholder_names_def)
  next
    case (Some m)
    then obtain pre g rest where m: "regex_exec s = Some (pre, g, rest)"
      by (cases m) auto
    from 1 [OF m refl] m show ?thesis
      by (simp add: detect_loop.simps [of keys s] exec_groups.simps [of s] placeholder_names_def
          Let_def)
  qed
qed

lemma remdups_snoc: "remdups (zs @ [x]) = remdups (filter (\<lambda>z. z \<noteq> x) zs) @ [x]"
  by (induction zs) auto

lemma foldl_Set_add:
  "foldl Set_add acc xs = acc @ rev (remdups (rev (filter (\<lambda>x. x \<notin> set acc) xs)))"
proof (induction xs arbitrary: acc)
  case Nil
  show ?case by simp
next
  case (Cons x xs)
  show ?case
  proof (cases "x \<in> set acc")
    case True
    with Cons [of acc] show ?thesis by (simp add: Set_add_def)
  next
    case False
    have "filter (\<lambda>z. z \<noteq> x) (rev (filter (\<lambda>x. x \<notin> set acc) xs))
        = rev (filter (\<lambda>y. y \<notin> set (acc @ [x])) xs)"
      by (simp add: rev_filter [symmetric] conj_commute)
    with False Cons [of "acc @ [x]"] show ?thesis
      by (simp add: Set_add_def remdups_snoc)
  qed
qed

lemma detectPlaceholders_first_occurrences:
  "detectPlaceholders prompt = rev (remdups (rev (placeholder_names prompt)))"
  by (simp add: detectPlaceholders_def detect_loop_foldl foldl_Set_add)

lemma hd_dropWhile_not: "dropWhile P xs \<noteq> [] \<Longrightarrow> \<not> P (hd (dropWhile P xs))"
  by (induction xs) auto

lemma last_dropWhile: "dropWhile P xs \<noteq> [] \<Longrightarrow> last (dropWhile P xs) = last xs"
  by (induction xs) (auto split: if_splits)

lemma trim_ends:
  assumes "trim s \<noteq> []"
  shows "\<not> is_space (hd (trim s)) \<and> \<not> is_space (last (trim s))"
proof -
  let ?a = "dropWhile is_space s"
  let ?b = "dropWhile is_space (rev ?a)"
  from assms have b: "?b \<noteq> []" by (simp add: trim_def)
  have a: "?a \<noteq> []"
  proof
    assume "?a = []"
    then have "?b = []" by (simp only: rev.simps dropWhile.simps)
    with b show False ..
  qed
  from b have "\<not> is_space (hd ?b)" by (rule hd_dropWhile_not)
  with b have 1: "\<not> is_space (last (trim s))" by (simp add: trim_def last_rev)
  from b have "last ?b = last (rev ?a)" by (rule last_dropWhile)
  with a have "last ?b = hd ?a" by (simp add: last_rev)
  moreover from a have "\<not> is_space (hd ?a)" by (rule hd_dropWhile_not)
  ultimately have 2: "\<not> is_space (hd (trim s))" using b by (simp add: trim_def hd_rev)
  from 2 1 show ?thesis ..
qed

lemma dropWhile_id_hd: "xs \<noteq> [] \<Longrightarrow> \<not> P (hd xs) \<Longrightarrow> dropWhile P xs = xs"
  by (cases xs) auto

lemma trim_fixed:
  assumes "s \<noteq> []" "\<not> is_space (hd s)" "\<not> is_space (last s)"
  shows "trim s = s"
proof -
  from assms have "dropWhile is_space s = s" by (simp add: dropWhile_id_hd)
  moreover from assms have "dropWhile is_space (rev s) = rev s"
    by (simp add: dropWhile_id_hd hd_rev)
  ultimately show ?thesis by (simp add: trim_def)
qed

lemma trim_trim: "trim (trim s) = trim s"
proof (cases "trim s = []")
  case True
  have "trim [] = []" by (simp add: trim_def)
  with True show ?thesis by (simp only:)
next
  case False
  with trim_ends [OF False] show ?thesis by (simp add: trim_fixed)
qed

subsection \<open>The name of a match\<close>

text \<open>
  Group 1 of a match, once trimmed, is the trimmed text between the braces of the
  marker matched, however the white space is shared between the two \<open>\s*\<close> and the
  group.
\<close>

lemma trail_ws_Some_spaces:
  assumes "trail_ws s = Some r"
  shows "takeWhile (\<lambda>c. \<not> is_brace c) s = takeWhile is_space s"
proof -
  from assms have e: "dropWhile is_space s = ''}}'' @ r"
    by (simp add: trail_ws_eq close_braces_Some_iff)
  have "s = takeWhile is_space s @ dropWhile is_space s" by simp
  then have s: "s = takeWhile is_space s @ ''}}'' @ r" unfolding e .
  have "\<forall>c \<in> set (takeWhile is_space s). \<not> is_brace c"
    by (auto dest: set_takeWhileD simp: space_not_brace)
  then have "takeWhile (\<lambda>c. \<not> is_brace c) (takeWhile is_space s @ ''}}'' @ r) = takeWhile is_space s"
    by (simp add: takeWhile_append2 is_brace_def)
  with s show ?thesis by simp
qed

lemma lazy_group_text:
  "lazy_group acc s = Some (g, r) \<Longrightarrow>
   \<exists>p w. g = acc @ p \<and> takeWhile (\<lambda>c. \<not> is_brace c) s = p @ w \<and> list_all is_space w
      \<and> (p = [] \<or> \<not> is_space (last p)) \<and> (p = [] \<longrightarrow> trail_ws s = Some r)"
proof (induction s arbitrary: acc)
  case Nil
  then show ?case by (simp add: lazy_group.simps [of _ "[]"])
next
  case (Cons c cs)
  show ?case
  proof (cases "trail_ws (c # cs)")
    case (Some r')
    with Cons.prems have g: "g = acc" "r' = r" by (simp_all add: lazy_group.simps [of _ "c # cs"])
    define w where "w = takeWhile is_space (c # cs)"
    from Some have "takeWhile (\<lambda>c. \<not> is_brace c) (c # cs) = [] @ w"
      unfolding w_def by (simp only: trail_ws_Some_spaces append_Nil)
    moreover have "list_all is_space w"
      unfolding w_def list_all_iff by (blast dest: set_takeWhileD)
    moreover from Some g have "trail_ws (c # cs) = Some r" by (simp only:)
    moreover from g have "g = acc @ []" by simp
    ultimately show ?thesis by blast
  next
    case None
    with Cons.prems have nb: "\<not> is_brace c" and l: "lazy_group (acc @ [c]) cs = Some (g, r)"
      by (simp_all add: lazy_group.simps [of _ "c # cs"] split: if_splits)
    from Cons.IH [OF l] obtain p w where p: "g = (acc @ [c]) @ p"
      "takeWhile (\<lambda>c. \<not> is_brace c) cs = p @ w" "list_all is_space w"
      "p = [] \<or> \<not> is_space (last p)" "p = [] \<longrightarrow> trail_ws cs = Some r" by blast
    have "\<not> is_space (last (c # p))"
    proof (cases "p = []")
      case True
      with p have "trail_ws cs = Some r" by simp
      with None have "\<not> is_space c" by (auto split: if_splits)
      with True show ?thesis by simp
    next
      case False
      with p show ?thesis by simp
    qed
    with p nb show ?thesis by (intro exI [of _ "c # p"] exI [of _ w]) simp
  qed
qed

lemma dropWhile_all: "list_all P w \<Longrightarrow> dropWhile P (w @ xs) = dropWhile P xs"
  by (induction w) auto

lemma trim_core:
  assumes "list_all is_space before" "list_all is_space after"
    and "\<not> is_space c" "p = [] \<or> \<not> is_space (last p)"
  shows "trim (before @ c # p @ after) = c # p"
proof -
  from assms(1,3) have 1: "dropWhile is_space (before @ c # p @ after) = c # p @ after"
    by (simp add: dropWhile_all)
  have "rev (c # p @ after) = rev after @ rev (c # p)" by simp
  moreover from assms(2) have "list_all is_space (rev after)" by (simp add: list_all_iff)
  ultimately have 2: "dropWhile is_space (rev (c # p @ after)) = dropWhile is_space (rev (c # p))"
    by (simp only: dropWhile_all)
  from assms(3,4) have "\<not> is_space (hd (rev (c # p)))"
    by (cases "p = []") (simp_all add: hd_rev)
  then have 3: "dropWhile is_space (rev (c # p)) = rev (c # p)"
    by (intro dropWhile_id_hd) simp_all
  show ?thesis unfolding trim_def 1 2 3 by simp
qed

lemma group1_text:
  assumes "group1 s = Some (g, r)" "\<not> is_space (hd s)"
  shows "trim (takeWhile (\<lambda>c. \<not> is_brace c) s) = g \<and> trim g = g"
proof -
  from assms(1) obtain c cs where s: "s = c # cs" and nb: "\<not> is_brace c"
    and l: "lazy_group [c] cs = Some (g, r)"
    by (cases s) (auto simp: group1_def split: if_splits)
  from lazy_group_text [OF l] obtain p w where p: "g = c # p"
    "takeWhile (\<lambda>c. \<not> is_brace c) cs = p @ w" "list_all is_space w"
    "p = [] \<or> \<not> is_space (last p)" by auto
  from assms(2) s have c: "\<not> is_space c" by simp
  from trim_core [of "[]" w c p] p c nb s
  have "trim (takeWhile (\<lambda>c. \<not> is_brace c) s) = g" by simp
  moreover from trim_core [of "[]" "[]" c p] p c have "trim g = g" by simp
  ultimately show ?thesis ..
qed

lemma trim_space_Cons: "is_space c \<Longrightarrow> trim (c # s) = trim s"
  by (simp add: trim_def)

lemma lead_ws_text:
  "lead_ws s = Some (g, r) \<Longrightarrow> trim g = trim (takeWhile (\<lambda>c. \<not> is_brace c) s)"
proof (induction s)
  case Nil
  then show ?case by (simp add: group1_def)
next
  case (Cons c cs)
  show ?case
  proof (cases "is_space c")
    case False
    with Cons.prems have "group1 (c # cs) = Some (g, r)" by simp
    from group1_text [OF this] False show ?thesis by simp
  next
    case True
    then have nb: "\<not> is_brace c" by (rule space_not_brace)
    show ?thesis
    proof (cases "lead_ws cs")
      case (Some m)
      with True Cons.prems have "lead_ws cs = Some (g, r)" by simp
      from Cons.IH [OF this] True nb show ?thesis by (simp add: trim_space_Cons)
    next
      case None
      with True Cons.prems have g1: "group1 (c # cs) = Some (g, r)" by simp
      from None have "body_rest cs = None" using lead_ws_rest [of cs] by simp
      moreover from g1 have "body_rest (c # cs) = Some r" using group1_rest [of "c # cs"] by simp
      ultimately have e: "takeWhile (\<lambda>c. \<not> is_brace c) cs = []"
        using nb by (auto simp: body_rest_def split: if_splits)
      from g1 nb have l: "lazy_group [c] cs = Some (g, r)" by (simp add: group1_def)
      from lazy_group_text [OF l] e have "g = [c]" by auto
      with e nb True show ?thesis by (simp add: trim_space_Cons)
    qed
  qed
qed

lemma match_here_marker:
  assumes "body \<noteq> []" "list_all (\<lambda>c. \<not> is_brace c) body"
  shows "\<exists>g. match_here (''{{'' @ body @ ''}}'' @ post) = Some (g, post)
           \<and> normaliseKey g = trim body"
proof -
  let ?r = "body @ ''}}'' @ post"
  from assms(2) have t: "takeWhile (\<lambda>c. \<not> is_brace c) ?r = body"
    by (simp add: list_all_iff takeWhile_append2 is_brace_def)
  from assms(2) have d: "dropWhile (\<lambda>c. \<not> is_brace c) ?r = ''}}'' @ post"
    by (simp add: list_all_iff dropWhile_append2 is_brace_def)
  from t d assms(1) have "body_rest ?r = Some post" by (simp add: body_rest_def)
  then have "map_option snd (lead_ws ?r) = Some post" by (simp add: lead_ws_rest)
  then obtain g where g: "lead_ws ?r = Some (g, post)" by auto
  from lead_ws_text [OF g] t have "normaliseKey g = trim body" by (simp add: normaliseKey_def)
  with g show ?thesis by (simp add: match_here_def)
qed

lemma match_here_Some_marker:
  assumes "match_here s = Some (g, r)"
  shows "\<exists>body. s = ''{{'' @ body @ ''}}'' @ r \<and> body \<noteq> []
           \<and> list_all (\<lambda>c. \<not> is_brace c) body \<and> normaliseKey g = trim body"
proof -
  from assms have "marker_at s" using match_here_None_iff [of s] by simp
  then obtain body post where s: "s = ''{{'' @ body @ ''}}'' @ post" and b: "body \<noteq> []"
    "list_all (\<lambda>c. \<not> is_brace c) body" unfolding marker_at_iff by blast
  from match_here_marker [OF b, of post] s assms show ?thesis using b by auto
qed

lemma regex_exec_Some_marker:
  "regex_exec s = Some (pre, g, r) \<Longrightarrow>
   \<exists>body. s = pre @ ''{{'' @ body @ ''}}'' @ r \<and> body \<noteq> []
      \<and> list_all (\<lambda>c. \<not> is_brace c) body \<and> normaliseKey g = trim body"
proof (induction s arbitrary: pre)
  case Nil
  then show ?case by simp
next
  case (Cons c cs)
  show ?case
  proof (cases "match_here (c # cs)")
    case (Some m)
    with Cons.prems have "match_here (c # cs) = Some (g, r)" and "pre = []"
      by (auto split: prod.splits)
    with match_here_Some_marker [of "c # cs" g r] show ?thesis by simp
  next
    case None
    with Cons.prems obtain pre' where e: "regex_exec cs = Some (pre', g, r)" and p: "pre = c # pre'"
      by (auto split: option.splits)
    from Cons.IH [OF e] p show ?thesis by auto
  qed
qed

lemma exec_groups_marker:
  "g \<in> set (exec_groups s) \<Longrightarrow>
   \<exists>before body after. s = before @ ''{{'' @ body @ ''}}'' @ after \<and> body \<noteq> []
      \<and> list_all (\<lambda>c. \<not> is_brace c) body \<and> normaliseKey g = trim body"
proof (induction s rule: exec_groups.induct)
  case (1 s)
  show ?case
  proof (cases "regex_exec s")
    case None
    with "1.prems" show ?thesis by (simp add: exec_groups.simps [of s])
  next
    case (Some m)
    then obtain pre g0 rest where m: "regex_exec s = Some (pre, g0, rest)"
      by (cases m) auto
    from regex_exec_Some_marker [OF m] obtain body0 where
      s: "s = pre @ ''{{'' @ body0 @ ''}}'' @ rest" and b0: "body0 \<noteq> []"
      "list_all (\<lambda>c. \<not> is_brace c) body0" "normaliseKey g0 = trim body0" by blast
    from m "1.prems" have "g = g0 \<or> g \<in> set (exec_groups rest)"
      by (simp add: exec_groups.simps [of s])
    then show ?thesis
    proof
      assume "g = g0"
      with s b0 show ?thesis by blast
    next
      assume "g \<in> set (exec_groups rest)"
      from "1.IH" [OF m refl refl this] obtain before body after where
        r: "rest = before @ ''{{'' @ body @ ''}}'' @ after" and b: "body \<noteq> []"
        "list_all (\<lambda>c. \<not> is_brace c) body" "normaliseKey g = trim body" by blast
      from s r have "s = (pre @ ''{{'' @ body0 @ ''}}'' @ before) @ ''{{'' @ body @ ''}}'' @ after"
        by simp
      with b show ?thesis by blast
    qed
  qed
qed

subsection \<open>The names the scanner returns\<close>

text \<open>
  C4: for every template, malformed brace sequences or not, the list the scanner
  returns has no duplicates and no empty name; every name in it is trimmed (trimming it
  again changes nothing, and neither its first nor its last character is white space)
  and is the trimmed text between the braces of a well-formed marker of the template;
  and the list is the names of the successive matches, each at its first occurrence
  (\<open>remdups\<close> keeps the last occurrence of each element, so between two reversals it
  keeps the first).
\<close>

theorem detectPlaceholders_names:
  "distinct (detectPlaceholders prompt)
   \<and> [] \<notin> set (detectPlaceholders prompt)
   \<and> (\<forall>key \<in> set (detectPlaceholders prompt).
         normaliseKey key = key \<and> \<not> is_space (hd key) \<and> \<not> is_space (last key)
         \<and> (\<exists>before body after. prompt = before @ ''{{'' @ body @ ''}}'' @ after
               \<and> list_all (\<lambda>c. \<not> is_brace c) body \<and> key = trim body))
   \<and> detectPlaceholders prompt = rev (remdups (rev (placeholder_names prompt)))"
proof -
  have f: "detectPlaceholders prompt = rev (remdups (rev (placeholder_names prompt)))"
    by (rule detectPlaceholders_first_occurrences)
  then have s: "set (detectPlaceholders prompt) = set (placeholder_names prompt)" by simp
  have d: "distinct (detectPlaceholders prompt)" unfolding f by simp
  have e: "[] \<notin> set (detectPlaceholders prompt)"
    unfolding s by (simp add: placeholder_names_def)
  have t: "normaliseKey key = key \<and> \<not> is_space (hd key) \<and> \<not> is_space (last key)
         \<and> (\<exists>before body after. prompt = before @ ''{{'' @ body @ ''}}'' @ after
               \<and> list_all (\<lambda>c. \<not> is_brace c) body \<and> key = trim body)"
    if "key \<in> set (detectPlaceholders prompt)" for key
  proof -
    from that obtain g where g: "g \<in> set (exec_groups prompt)" and k: "key = trim g" "trim g \<noteq> []"
      unfolding s by (auto simp: placeholder_names_def normaliseKey_def)
    from exec_groups_marker [OF g] k obtain before body after where
      "prompt = before @ ''{{'' @ body @ ''}}'' @ after" "list_all (\<lambda>c. \<not> is_brace c) body"
      "key = trim body" by (auto simp: normaliseKey_def)
    then have "\<exists>before body after. prompt = before @ ''{{'' @ body @ ''}}'' @ after
               \<and> list_all (\<lambda>c. \<not> is_brace c) body \<and> key = trim body" by blast
    moreover from k have "normaliseKey key = key \<and> \<not> is_space (hd key) \<and> \<not> is_space (last key)"
      using trim_ends [of g] by (simp add: normaliseKey_def trim_trim)
    ultimately show ?thesis by blast
  qed
  from d e t f show ?thesis by blast
qed

theorem detectPlaceholders_names_witness:
  "detectPlaceholders ''{{ a }} {{b}}} {{a}} {{  }} {{{c} {{ d e }} {{x{y}} }}'' = [''a'', ''b'', ''d e'']
   \<and> placeholder_names ''{{ a }} {{b}}} {{a}} {{  }} {{{c} {{ d e }} {{x{y}} }}'' = [''a'', ''b'', ''a'', ''d e'']
   \<and> distinct [''a'', ''b'', ''d e'']
   \<and> normaliseKey ''d e'' = ''d e''"
proof -
  let ?t = "''{{ a }} {{b}}} {{a}} {{  }} {{{c} {{ d e }} {{x{y}} }}''"
  have p: "placeholder_names ?t = [''a'', ''b'', ''a'', ''d e'']"
    by code_simp
  from detectPlaceholders_names [of ?t] have
    "detectPlaceholders ?t = rev (remdups (rev (placeholder_names ?t)))"
    "\<forall>key \<in> set (detectPlaceholders ?t). normaliseKey key = key"
    by blast+
  then have "detectPlaceholders ?t = [''a'', ''b'', ''d e'']" "normaliseKey ''d e'' = ''d e''"
    unfolding p by simp_all
  with p show ?thesis by simp
qed

section \<open>Rendering\<close>

lemma injectVariables_scenario_resolved:
  "injectVariables ''Generate {{count}} images for {{pack_name}}''
     [(''count'', ''10''), (''pack_name'', ''TR_INVOICE'')] = ''Generate 10 images for TR_INVOICE''"
  by code_simp

lemma injectVariables_scenario_unresolved:
  "injectVariables ''Generate {{count}} images for {{pack_name}}'' [(''count'', ''10'')]
     = ''Generate 10 images for {{pack_name}}''"
  by code_simp

lemma injectVariables_renormalised:
  "injectVariables ''{{  x  }} and {{ }}'' [(''x'', [])] = ''{{x}} and {{}}''"
  by code_simp


text \<open>
  Braces of the template around a marker do the same with values that hold no brace:
  the scanner finds the one name \<open>a\<close>, and the rendered text is a marker.
\<close>

lemma render_twice_leftover_braces:
  "detectPlaceholders ''{{{{a}}b}}'' = [''a'']
   \<and> injectVariables ''{{{{a}}b}}'' [(''a'', ''x''), (''xb'', ''y'')] = ''{{xb}}''
   \<and> injectVariables ''{{xb}}'' [(''a'', ''x''), (''xb'', ''y'')] = ''y''"
  by code_simp

text \<open>
  A text with no well-formed marker (by \<open>has_marker_iff\<close>: no \<open>{{\<close>, non-empty text
  without braces, \<open>}}\<close> anywhere in it) renders to itself.
\<close>

lemma render_idempotent_resolved:
  "\<not> has_marker (injectVariables template values) \<Longrightarrow>
   injectVariables (injectVariables template values) values = injectVariables template values"
  by (simp add: injectVariables_def replace_all_no_marker)







text \<open>
  The replacement of every match stands in the rendered text. So a scanned name whose
  value is \<open>undefined\<close> or the empty string stands in the rendered text as its own marker.
\<close>

lemma replace_all_group:
  "g \<in> set (exec_groups s) \<Longrightarrow> \<exists>before after. replace_all f s = before @ f g @ after"
proof (induction s rule: exec_groups.induct)
  case (1 s)
  show ?case
  proof (cases "regex_exec s")
    case None
    with "1.prems" show ?thesis by (simp add: exec_groups.simps [of s])
  next
    case (Some m)
    then obtain pre g0 rest where m: "regex_exec s = Some (pre, g0, rest)"
      by (cases m) auto
    then have r: "replace_all f s = pre @ f g0 @ replace_all f rest"
      by (simp add: replace_all.simps [of f s])
    from m "1.prems" have "g = g0 \<or> g \<in> set (exec_groups rest)"
      by (simp add: exec_groups.simps [of s])
    then show ?thesis
    proof
      assume "g = g0"
      with r show ?thesis by blast
    next
      assume "g \<in> set (exec_groups rest)"
      from "1.IH" [OF m refl refl this] obtain before after
        where "replace_all f rest = before @ f g @ after" by blast
      with r have "replace_all f s = (pre @ f g0 @ before) @ f g @ after" by simp
      then show ?thesis by blast
    qed
  qed
qed

lemma unresolved_marker_kept:
  assumes "key \<in> set (detectPlaceholders template)"
    and "get_prop values key = Undefined \<or> get_prop values key = Str []"
  shows "\<exists>before after. injectVariables template values = before @ marker key @ after"
proof -
  from assms(1) have "key \<in> set (placeholder_names template)"
    by (simp add: detectPlaceholders_first_occurrences)
  then obtain g where g: "g \<in> set (exec_groups template)" and k: "normaliseKey g = key"
    by (auto simp: placeholder_names_def)
  from assms(2) k have "substitute values g = marker key"
    by (auto simp: substitute_def)
  with replace_all_group [OF g, of "substitute values"] show ?thesis
    by (simp add: injectVariables_def)
qed

text \<open>
  C5 says that every scanned name with no value in the store is rendered as its own
  marker. \<open>unresolved_marker_kept\<close> is that property for the names whose lookup gives
  \<open>undefined\<close> or the empty string. The lookup \<open>values[key]\<close> of a name that is a property
  of \<open>Object.prototype\<close> and not of the store gives the inherited value, which is neither
  \<open>undefined\<close> nor the empty string: the template \<open>{{constructor}}\<close> with the default
  variables, which have no entry \<open>constructor\<close>, renders to the text of the function
  \<open>Object\<close>, not to \<open>{{constructor}}\<close>.
\<close>

theorem inherited_key_replaced:
  "detectPlaceholders ''{{constructor}}'' = [''constructor'']
   \<and> map_of DEFAULT_VARIABLES ''constructor'' = None
   \<and> injectVariables ''{{constructor}}'' DEFAULT_VARIABLES = ''function Object() { [native code] }''"
  by code_simp

section \<open>The snapshot\<close>

text \<open>
  A quoted string is a JSON string literal that reads back as the string, whatever
  follows it.
\<close>

lemma hex_value_hex_digit: "d < 16 \<Longrightarrow> hex_value (hex_digit d) = Some d"
  by (simp add: hex_value_def hex_digit_def Let_def)

lemma hex_value_zero: "hex_value (CHR ''0'') = Some 0"
  by (simp add: hex_value_def)

lemma char_of_div_mod: "char_of (16 * ((of_char c :: nat) div 16) + (of_char c :: nat) mod 16) = c"
  by simp

lemma read_chars_quote_char:
  "read_chars (quote_char c @ s) =
     (case read_chars s of Some (t, r) \<Rightarrow> Some (c # t, r) | None \<Rightarrow> None)"
proof -
  consider (special) "c \<in> {CHR 0x08, CHR 0x09, CHR 0x0A, CHR 0x0C, CHR 0x0D, CHR 0x22, CHR 0x5C}"
    | (control) "c \<notin> {CHR 0x08, CHR 0x09, CHR 0x0A, CHR 0x0C, CHR 0x0D, CHR 0x22, CHR 0x5C}"
        "(of_char c :: nat) < 32"
    | (plain) "c \<notin> {CHR 0x08, CHR 0x09, CHR 0x0A, CHR 0x0C, CHR 0x0D, CHR 0x22, CHR 0x5C}"
        "\<not> (of_char c :: nat) < 32"
    by blast
  then show ?thesis
  proof cases
    case special
    then show ?thesis by (auto simp: quote_char_def unescape_def)
  next
    case control
    then have d: "(of_char c :: nat) div 16 < 16" "(of_char c :: nat) mod 16 < 16" by simp_all
    from control have q: "quote_char c =
        [CHR 0x5C, CHR ''u'', CHR ''0'', CHR ''0'',
         hex_digit ((of_char c :: nat) div 16), hex_digit ((of_char c :: nat) mod 16)]"
      by (simp add: quote_char_def)
    show ?thesis unfolding q
      by (simp add: hex_value_zero hex_value_hex_digit [OF d(1)] hex_value_hex_digit [OF d(2)]
          char_of_div_mod split: option.splits)
  next
    case plain
    then show ?thesis by (simp add: quote_char_def)
  qed
qed

lemma read_chars_quoted:
  "read_chars (concat (map quote_char s) @ CHR 0x22 # rest) = Some (s, rest)"
  by (induction s) (simp_all add: read_chars_quote_char del: read_chars.simps(2), simp)

lemma read_string_quote: "read_string (quote s @ rest) = Some (s, rest)"
  by (simp add: read_string_def quote_def read_chars_quoted del: read_chars.simps)

text \<open>
  C9: the snapshot is an object of exactly three members, in this order: \<open>metaPrompt\<close>,
  the template rendered with the variables; \<open>selectedPack\<close>, which is \<open>null\<close> when no pack
  is active and else an object of \<open>packName\<close>, \<open>goal\<close>, \<open>perImage\<close> (the list of the
  directive lines, each trimmed) and \<open>systemNotes\<close>; and \<open>variables\<close>, an object with one
  member for every entry of the store, whether the template uses it or not. The text
  copied is that object printed as JSON with every member on a line of its own, two
  spaces deeper than the object it belongs to, and a colon and a space between key and
  value; every string in it is a JSON string literal that reads back as the string. For
  the example state the text is the one written out below.
\<close>

theorem json_snapshot_shape:
  \<open>snapshot st =
     JObject
       [(''metaPrompt'', JString (injectVariables (metaPrompt st) (variables st))),
        (''selectedPack'', pack_json (selectedPack st)),
        (''variables'', variables_json (variables st))]
   \<and> pack_json None = JNull
   \<and> pack_json (Some pack) =
       JObject
         [(''packName'', JString (packName pack)),
          (''goal'', JString (goal pack)),
          (''perImage'', JArray (map (\<lambda>line. JString (trim line)) (split (perImage pack) newline))),
          (''systemNotes'', JString (systemNotes pack))]
   \<and> variables_json vs = JObject (map (\<lambda>(k, v). (k, JString v)) vs)
   \<and> json_snapshot st =
       ''{\<newline>  "metaPrompt": '' @ quote (injectVariables (metaPrompt st) (variables st))
       @ '',\<newline>  "selectedPack": '' @ serialize ''  '' ''  '' (pack_json (selectedPack st))
       @ '',\<newline>  "variables": '' @ serialize ''  '' ''  '' (variables_json (variables st))
       @ ''\<newline>}''
   \<and> serialize ''  '' ''  '' (pack_json None) = ''null''
   \<and> serialize ''  '' ''  '' (pack_json (Some pack)) =
       ''{\<newline>    "packName": '' @ quote (packName pack)
       @ '',\<newline>    "goal": '' @ quote (goal pack)
       @ '',\<newline>    "perImage": [\<newline>      ''
       @ join (map (\<lambda>line. quote (trim line)) (split (perImage pack) newline)) '',\<newline>      ''
       @ ''\<newline>    ],\<newline>    "systemNotes": '' @ quote (systemNotes pack)
       @ ''\<newline>  }''
   \<and> serialize ''  '' ''  '' (variables_json vs) =
       (if vs = [] then ''{}''
        else ''{\<newline>    '' @ join (map (\<lambda>(k, v). quote k @ '': '' @ quote v) vs) '',\<newline>    ''
             @ ''\<newline>  }'')
   \<and> read_string (quote s @ rest) = Some (s, rest)
   \<and> json_snapshot snapshot_state =
''{
  "metaPrompt": "Make 10 for {{x}}",
  "selectedPack": {
    "packName": "US_ID_V1",
    "goal": "G",
    "perImage": [
      "a",
      "b"
    ],
    "systemNotes": "N"
  },
  "variables": {
    "count": "10",
    "old": "say '' @ [CHR 0x5C] @ ''"hi'' @ [CHR 0x5C] @ ''""
  }
}''\<close>
proof -
  have k: "quote ''metaPrompt'' = [CHR 0x22] @ ''metaPrompt'' @ [CHR 0x22]"
    "quote ''selectedPack'' = [CHR 0x22] @ ''selectedPack'' @ [CHR 0x22]"
    "quote ''variables'' = [CHR 0x22] @ ''variables'' @ [CHR 0x22]"
    "quote ''packName'' = [CHR 0x22] @ ''packName'' @ [CHR 0x22]"
    "quote ''goal'' = [CHR 0x22] @ ''goal'' @ [CHR 0x22]"
    "quote ''perImage'' = [CHR 0x22] @ ''perImage'' @ [CHR 0x22]"
    "quote ''systemNotes'' = [CHR 0x22] @ ''systemNotes'' @ [CHR 0x22]"
    by (simp_all add: quote_def quote_char_def)
  have 1: "json_snapshot st =
       ''{\<newline>  '' @ quote ''metaPrompt'' @ '': '' @ quote (injectVariables (metaPrompt st) (variables st))
       @ '',\<newline>  '' @ quote ''selectedPack'' @ '': '' @ serialize ''  '' ''  '' (pack_json (selectedPack st))
       @ '',\<newline>  '' @ quote ''variables'' @ '': '' @ serialize ''  '' ''  '' (variables_json (variables st))
       @ ''\<newline>}''"
    by (simp add: json_snapshot_def JSON_stringify_def snapshot_def finalPrompt_def newline_def
        numeral_2_eq_2 del: serialize.simps(3,4))
      (simp add: Let_def newline_def)
  have ne: "map (\<lambda>line. JString (trim line)) (split (perImage pack) newline) \<noteq> []"
    by (simp add: split_not_Nil)
  have 2: "serialize ''  '' ''  '' (pack_json (Some pack)) =
       ''{\<newline>    '' @ quote ''packName'' @ '': '' @ quote (packName pack)
       @ '',\<newline>    '' @ quote ''goal'' @ '': '' @ quote (goal pack)
       @ '',\<newline>    '' @ quote ''perImage'' @ '': '' @ ''[\<newline>      ''
       @ join (map (\<lambda>line. quote (trim line)) (split (perImage pack) newline)) '',\<newline>      ''
       @ ''\<newline>    ]'' @ '',\<newline>    '' @ quote ''systemNotes'' @ '': '' @ quote (systemNotes pack)
       @ ''\<newline>  }''"
    using ne by (simp add: pack_json_def Let_def newline_def comp_def split_not_Nil)
  have 3: "serialize ''  '' ''  '' (variables_json vs) =
       (if vs = [] then ''{}''
        else ''{\<newline>    '' @ join (map (\<lambda>(k, v). quote k @ '': '' @ quote v) vs) '',\<newline>    ''
             @ ''\<newline>  }'')"
    by (simp add: variables_json_def Let_def newline_def comp_def case_prod_unfold)
  have 4: \<open>json_snapshot snapshot_state =
''{
  "metaPrompt": "Make 10 for {{x}}",
  "selectedPack": {
    "packName": "US_ID_V1",
    "goal": "G",
    "perImage": [
      "a",
      "b"
    ],
    "systemNotes": "N"
  },
  "variables": {
    "count": "10",
    "old": "say '' @ [CHR 0x5C] @ ''"hi'' @ [CHR 0x5C] @ ''""
  }
}''\<close>
    by code_simp
  have 5: "read_string (quote s @ rest) = Some (s, rest)"
    by (rule read_string_quote)
  show ?thesis
    unfolding 1 2 3 4 5 k
    by (simp add: snapshot_def finalPrompt_def pack_json_def variables_json_def case_prod_unfold)
qed

lemma empty_snapshot:
  \<open>json_snapshot \<lparr>metaPrompt = ''hi'', variables = [], packs = [], selectedPackId = []\<rparr> =
''{
  "metaPrompt": "hi",
  "selectedPack": null,
  "variables": {}
}''\<close>
  by code_simp


lemma quote_escapes:
  \<open>quote ''a"b'' = ''"a'' @ [CHR 0x5C] @ ''"b"''
   \<and> quote [CHR ''a'', CHR 0x5C, CHR ''b''] = ''"a'' @ [CHR 0x5C, CHR 0x5C] @ ''b"''
   \<and> quote ''a\<newline>b'' = ''"a'' @ [CHR 0x5C] @ ''nb"''
   \<and> quote [CHR 0x09, CHR 0x0D, CHR 0x08, CHR 0x0C]
       = ''"'' @ [CHR 0x5C] @ ''t'' @ [CHR 0x5C] @ ''r'' @ [CHR 0x5C] @ ''b'' @ [CHR 0x5C] @ ''f"''
   \<and> quote [CHR 0x1F, CHR 0x7F] = ''"'' @ [CHR 0x5C] @ ''u001f'' @ [CHR 0x7F] @ ''"''\<close>
  by code_simp

end
